theory Spec2Isabelle
  imports Complex_Main "HOL-Library.Word" "HOL-Library.Log_Nat"
begin

unbundle bit_operations_syntax

section \<open>IEEE-754 binary32 values as 32-bit patterns\<close>

text \<open>
  The kernels of \<^verbatim>\<open>volk_32f_log2_32f.h\<close> reinterpret each \<^verbatim>\<open>float\<close> as a 32-bit
  integer, so a float is modelled by its bit pattern: bit 31 is the sign, bits 30..23 the
  biased exponent, bits 22..0 the significand field.
\<close>

type_synonym float32 = "32 word"

definition sign_of :: "float32 \<Rightarrow> bool" where
  "sign_of x = bit x 31"

definition expo :: "float32 \<Rightarrow> nat" where
  "expo x = unat (drop_bit 23 (x AND 0x7F800000))"

definition mant :: "float32 \<Rightarrow> nat" where
  "mant x = unat (x AND 0x7FFFFF)"

definition is_nan :: "float32 \<Rightarrow> bool" where
  "is_nan x = (expo x = 255 \<and> mant x \<noteq> 0)"

definition is_inf :: "float32 \<Rightarrow> bool" where
  "is_inf x = (expo x = 255 \<and> mant x = 0)"

definition is_finite :: "float32 \<Rightarrow> bool" where
  "is_finite x = (expo x < 255)"

definition is_normal :: "float32 \<Rightarrow> bool" where
  "is_normal x = (0 < expo x \<and> expo x < 255)"

definition is_subnormal :: "float32 \<Rightarrow> bool" where
  "is_subnormal x = (expo x = 0 \<and> mant x \<noteq> 0)"

definition plus_zero :: float32 where "plus_zero = 0"
definition minus_zero :: float32 where "minus_zero = 0x80000000"
definition plus_inf :: float32 where "plus_inf = 0x7F800000"
definition minus_inf :: float32 where "minus_inf = 0xFF800000"

text \<open>The quiet NaN an invalid SSE/AVX operation produces, and the quieting of a NaN operand.\<close>

definition default_nan :: float32 where "default_nan = 0xFFC00000"

definition quiet :: "float32 \<Rightarrow> float32" where
  "quiet x = x OR 0x00400000"

text \<open>
  Every finite binary32 value is an integer multiple of \<open>2 ^ -149\<close>; \<open>scaled x\<close> is that
  integer, and \<open>valof x\<close> the real number the pattern denotes (meaningful for finite \<open>x\<close>).
\<close>

definition scaled :: "float32 \<Rightarrow> int" where
  "scaled x =
     (let m = (if expo x = 0 then mant x else 2 ^ 23 + mant x) * 2 ^ (max (expo x) 1 - 1)
      in if sign_of x then - int m else int m)"

definition valof :: "float32 \<Rightarrow> real" where
  "valof x = real_of_int (scaled x) / 2 ^ 149"

section \<open>Rounding to nearest, ties to even\<close>

text \<open>\<open>rne_div N D\<close> is the integer nearest to \<open>N / D\<close>, a tie going to the even one.\<close>

definition rne_div :: "nat \<Rightarrow> nat \<Rightarrow> nat" where
  "rne_div N D =
     (let q = N div D; r = N mod D
      in if 2 * r < D \<or> (2 * r = D \<and> even q) then q else q + 1)"

text \<open>\<open>ilog2 N D\<close> is \<open>\<lfloor>log\<^sub>2 (N / D)\<rfloor>\<close> for positive \<open>N\<close> and \<open>D\<close>.\<close>

definition ilog2 :: "nat \<Rightarrow> nat \<Rightarrow> int" where
  "ilog2 N D =
     (if D \<le> N then int (floorlog 2 (N div D)) - 1
      else - int (floorlog 2 ((D - 1) div N)))"

text \<open>
  \<open>round_to p emin N D\<close> rounds the positive rational \<open>N / D\<close> to a significand of \<open>p\<close>
  bits with least normal exponent \<open>emin\<close>: the result \<open>(n, q)\<close> stands for \<open>n * 2 ^ q\<close>.
\<close>

definition round_to :: "nat \<Rightarrow> int \<Rightarrow> nat \<Rightarrow> nat \<Rightarrow> nat \<times> int" where
  "round_to p emin N D =
     (let q = max (ilog2 N D) emin - (int p - 1);
          n = (if q < 0 then rne_div (N * 2 ^ nat (- q)) D else rne_div N (D * 2 ^ nat q))
      in (n, q))"

text \<open>
  The binary32 pattern of \<open>n * 2 ^ q\<close> as \<open>round_to 24 (- 126)\<close> returns it. A significand
  rounded up to \<open>2 ^ 24\<close> carries into the exponent field; a magnitude beyond the largest
  finite value becomes infinity.
\<close>

definition enc32 :: "bool \<Rightarrow> nat \<times> int \<Rightarrow> float32" where
  "enc32 s nq =
     (case nq of (n, q) \<Rightarrow>
        (if s then 0x80000000 else 0) OR
        word_of_nat (min (nat ((q + 149) * 2 ^ 23) + n) 0x7F800000))"

definition round32 :: "bool \<Rightarrow> nat \<Rightarrow> nat \<Rightarrow> float32" where
  "round32 s N D =
     (if N = 0 then (if s then minus_zero else plus_zero)
      else enc32 s (round_to 24 (- 126) N D))"

section \<open>Single-precision arithmetic\<close>

text \<open>
  Addition, subtraction, multiplication and fused multiply-add in the default rounding mode
  (nearest, ties to even), with the x86 conventions for special operands: a NaN operand is
  returned quieted (the first one when there are several), an invalid operation gives
  \<open>default_nan\<close>. The fused operation rounds \<open>a * b + c\<close> once.
\<close>

definition fadd :: "float32 \<Rightarrow> float32 \<Rightarrow> float32" where
  "fadd a b =
     (if is_nan a then quiet a else if is_nan b then quiet b
      else if is_inf a then (if is_inf b \<and> sign_of a \<noteq> sign_of b then default_nan else a)
      else if is_inf b then b
      else let r = scaled a + scaled b in
        if r = 0 then (if sign_of a \<and> sign_of b then minus_zero else plus_zero)
        else round32 (r < 0) (nat \<bar>r\<bar>) (2 ^ 149))"

definition fsub :: "float32 \<Rightarrow> float32 \<Rightarrow> float32" where
  "fsub a b =
     (if is_nan a then quiet a else if is_nan b then quiet b
      else if is_inf a then (if is_inf b \<and> sign_of a = sign_of b then default_nan else a)
      else if is_inf b then b XOR 0x80000000
      else let r = scaled a - scaled b in
        if r = 0 then (if sign_of a \<and> \<not> sign_of b then minus_zero else plus_zero)
        else round32 (r < 0) (nat \<bar>r\<bar>) (2 ^ 149))"

definition fmul :: "float32 \<Rightarrow> float32 \<Rightarrow> float32" where
  "fmul a b =
     (if is_nan a then quiet a else if is_nan b then quiet b
      else if (is_inf a \<and> scaled b = 0) \<or> (is_inf b \<and> scaled a = 0) then default_nan
      else if is_inf a \<or> is_inf b then (if sign_of a \<noteq> sign_of b then minus_inf else plus_inf)
      else round32 (sign_of a \<noteq> sign_of b) (nat \<bar>scaled a * scaled b\<bar>) (2 ^ 298))"

definition fma :: "float32 \<Rightarrow> float32 \<Rightarrow> float32 \<Rightarrow> float32" where
  "fma a b c =
     (if is_nan a then quiet a else if is_nan b then quiet b else if is_nan c then quiet c
      else if (is_inf a \<and> scaled b = 0) \<or> (is_inf b \<and> scaled a = 0) then default_nan
      else if is_inf a \<or> is_inf b then
        (if is_inf c \<and> sign_of c = (sign_of a = sign_of b) then default_nan
         else if sign_of a \<noteq> sign_of b then minus_inf else plus_inf)
      else if is_inf c then c
      else let r = scaled a * scaled b + scaled c * 2 ^ 149 in
        if r = 0 then (if sign_of a \<noteq> sign_of b \<and> sign_of c then minus_zero else plus_zero)
        else round32 (r < 0) (nat \<bar>r\<bar>) (2 ^ 298))"

text \<open>Conversion of a signed 32-bit integer to float (\<^verbatim>\<open>cvtdq2ps\<close>, \<^verbatim>\<open>vcvt.f32.s32\<close>).\<close>

definition cvt_s32 :: "32 word \<Rightarrow> float32" where
  "cvt_s32 i = round32 (sint i < 0) (nat \<bar>sint i\<bar>) 1"

text \<open>
  A decimal floating constant with suffix \<^verbatim>\<open>f\<close>: \<open>float_lit d k\<close> is the binary32 value
  nearest to \<open>d / 10 ^ k\<close>. Without the suffix the constant is a \<^verbatim>\<open>double\<close>, rounded to
  53 bits first and to binary32 when it is passed as a \<^verbatim>\<open>float\<close> argument
  (\<open>double_lit\<close>; the constants of this file are far from the double range limits).
\<close>

definition float_lit :: "int \<Rightarrow> nat \<Rightarrow> float32" where
  "float_lit d k = round32 (d < 0) (nat \<bar>d\<bar>) (10 ^ k)"

definition double_lit :: "int \<Rightarrow> nat \<Rightarrow> float32" where
  "double_lit d k =
     (case round_to 53 (- 1022) (nat \<bar>d\<bar>) (10 ^ k) of (n, q) \<Rightarrow>
        if q < 0 then round32 (d < 0) n (2 ^ nat (- q)) else round32 (d < 0) (n * 2 ^ nat q) 1)"

section \<open>The C library functions the scalar kernels call\<close>

definition isinf :: "float32 \<Rightarrow> bool" where
  "isinf x = is_inf x"

definition copysignf :: "float32 \<Rightarrow> float32 \<Rightarrow> float32" where
  "copysignf x y = (x AND 0x7FFFFFFF) OR (y AND 0x80000000)"

text \<open>
  Modelled from the spec: \<^verbatim>\<open>log2f\<close> is the platform math primitive of \<^verbatim>\<open><math.h>\<close>, which
  is not part of the repository. The spec calls it the exact mathematical \<open>log\<^sub>2\<close> whose
  result may be infinite; the special operands follow ISO C Annex F: \<open>log2f(\<plusminus>0) = -\<infinity>\<close>,
  \<open>log2f(+\<infinity>) = +\<infinity>\<close>, a NaN for a NaN and for every negative operand, \<open>-\<infinity>\<close> included.
  What the platform returns for a finite positive operand is the parameter \<open>lm\<close>.
\<close>

definition log2f :: "(float32 \<Rightarrow> float32) \<Rightarrow> float32 \<Rightarrow> float32" where
  "log2f lm f =
     (if is_nan f then quiet f
      else if scaled f = 0 \<and> \<not> is_inf f then minus_inf
      else if sign_of f then default_nan
      else if is_inf f then plus_inf
      else lm f)"

section \<open>The output buffer\<close>

text \<open>
  The input array is a list of floats, a pointer into it an index. The output array is
  a list too; every store to it is logged, in program order, so that one can say which
  elements a kernel wrote and how often. \<^verbatim>\<open>num_points\<close>, the loop counters and the
  pointer offsets are natural numbers: the only arithmetic on them is a division by the
  vector width, a multiplication back and the difference \<^verbatim>\<open>num_points - number\<close>, none of
  which can wrap around in \<^verbatim>\<open>unsigned int\<close>.
\<close>

record outbuf =
  cells :: "float32 list"
  stores :: "nat list"

definition fresh :: "float32 list \<Rightarrow> outbuf" where
  "fresh bVector = \<lparr>cells = bVector, stores = []\<rparr>"

definition store :: "nat \<Rightarrow> float32 \<Rightarrow> outbuf \<Rightarrow> outbuf" where
  "store i v s = \<lparr>cells = (cells s)[i := v], stores = stores s @ [i]\<rparr>"

fun store_lanes :: "nat \<Rightarrow> float32 list \<Rightarrow> outbuf \<Rightarrow> outbuf" where
  "store_lanes p [] s = s"
| "store_lanes p (v # vs) s = store_lanes (p + 1) vs (store p v s)"

section \<open>The scalar kernels\<close>

text \<open>\<^verbatim>\<open>log2f_non_ieee\<close>: an infinite result becomes \<open>127.0f\<close> with the sign of the result.\<close>

definition log2f_non_ieee :: "(float32 \<Rightarrow> float32) \<Rightarrow> float32 \<Rightarrow> float32" where
  "log2f_non_ieee lm f =
     (let result = log2f lm f
      in if isinf result then copysignf (float_lit 127 0) result else result)"

function generic_loop ::
  "(float32 \<Rightarrow> float32) \<Rightarrow> float32 list \<Rightarrow> nat \<Rightarrow> nat \<Rightarrow> nat \<Rightarrow> nat \<Rightarrow> outbuf \<Rightarrow> outbuf" where
  "generic_loop lm aVector num_points number aPtr bPtr s =
     (if number < num_points
      then generic_loop lm aVector num_points (number + 1) (aPtr + 1) (bPtr + 1)
             (store bPtr (log2f_non_ieee lm (aVector ! aPtr)) s)
      else s)"
  by pat_completeness auto
termination
  by (relation "measure (\<lambda>(lm, aVector, num_points, number, aPtr, bPtr, s). num_points - number)") auto

declare generic_loop.simps [simp del]

text \<open>
  \<^verbatim>\<open>volk_32f_log2_32f_generic(bVector, aVector, num_points)\<close>. The vector kernels call it
  with pointers advanced into the same arrays, so the model takes the arrays and the two
  offsets \<open>aPtr\<close> and \<open>bPtr\<close>.
\<close>

definition volk_32f_log2_32f_generic ::
  "(float32 \<Rightarrow> float32) \<Rightarrow> float32 list \<Rightarrow> nat \<Rightarrow> nat \<Rightarrow> nat \<Rightarrow> outbuf \<Rightarrow> outbuf" where
  "volk_32f_log2_32f_generic lm aVector aPtr bPtr num_points s =
     generic_loop lm aVector num_points 0 aPtr bPtr s"

text \<open>\<^verbatim>\<open>volk_32f_log2_32f_u_generic\<close>: an infinite result becomes \<open>-127.0f\<close>, whatever its sign.\<close>

function u_generic_loop ::
  "(float32 \<Rightarrow> float32) \<Rightarrow> float32 list \<Rightarrow> nat \<Rightarrow> nat \<Rightarrow> nat \<Rightarrow> nat \<Rightarrow> outbuf \<Rightarrow> outbuf" where
  "u_generic_loop lm aVector num_points number aPtr bPtr s =
     (if number < num_points
      then (let result = log2f lm (aVector ! aPtr)
            in u_generic_loop lm aVector num_points (number + 1) (aPtr + 1) (bPtr + 1)
                 (store bPtr (if isinf result then float_lit (- 127) 0 else result) s))
      else s)"
  by pat_completeness auto
termination
  by (relation "measure (\<lambda>(lm, aVector, num_points, number, aPtr, bPtr, s). num_points - number)") auto

declare u_generic_loop.simps [simp del]

definition volk_32f_log2_32f_u_generic ::
  "(float32 \<Rightarrow> float32) \<Rightarrow> float32 list \<Rightarrow> nat \<Rightarrow> nat \<Rightarrow> nat \<Rightarrow> outbuf \<Rightarrow> outbuf" where
  "volk_32f_log2_32f_u_generic lm aVector aPtr bPtr num_points s =
     u_generic_loop lm aVector num_points 0 aPtr bPtr s"

section \<open>The vector intrinsics\<close>

text \<open>
  A vector register is the list of its lanes, lane 0 first; every intrinsic the kernels
  use works lane by lane. An aligned and an unaligned load (or store) move the same
  values: they differ in the alignment they demand of the address, which is a
  precondition on the caller's buffers and not a value of this model.
\<close>

subsection \<open>SSE4.1, four lanes\<close>

definition mm_load_ps :: "float32 list \<Rightarrow> nat \<Rightarrow> float32 list" where
  "mm_load_ps a p = take 4 (drop p a)"

definition mm_loadu_ps :: "float32 list \<Rightarrow> nat \<Rightarrow> float32 list" where
  "mm_loadu_ps a p = take 4 (drop p a)"

definition mm_store_ps :: "nat \<Rightarrow> float32 list \<Rightarrow> outbuf \<Rightarrow> outbuf" where
  "mm_store_ps p v s = store_lanes p (take 4 v) s"

definition mm_storeu_ps :: "nat \<Rightarrow> float32 list \<Rightarrow> outbuf \<Rightarrow> outbuf" where
  "mm_storeu_ps p v s = store_lanes p (take 4 v) s"

definition mm_set1_epi32 :: "32 word \<Rightarrow> 32 word list" where
  "mm_set1_epi32 k = replicate 4 k"

definition mm_set1_ps :: "float32 \<Rightarrow> float32 list" where
  "mm_set1_ps k = replicate 4 k"

definition mm_castps_si128 :: "float32 list \<Rightarrow> 32 word list" where
  "mm_castps_si128 v = v"

definition mm_castsi128_ps :: "32 word list \<Rightarrow> float32 list" where
  "mm_castsi128_ps v = v"

definition mm_and_si128 :: "32 word list \<Rightarrow> 32 word list \<Rightarrow> 32 word list" where
  "mm_and_si128 a b = map2 (AND) a b"

definition mm_srli_epi32 :: "32 word list \<Rightarrow> nat \<Rightarrow> 32 word list" where
  "mm_srli_epi32 a n = map (drop_bit n) a"

definition mm_sub_epi32 :: "32 word list \<Rightarrow> 32 word list \<Rightarrow> 32 word list" where
  "mm_sub_epi32 a b = map2 (-) a b"

definition mm_cvtepi32_ps :: "32 word list \<Rightarrow> float32 list" where
  "mm_cvtepi32_ps a = map cvt_s32 a"

definition mm_or_ps :: "float32 list \<Rightarrow> float32 list \<Rightarrow> float32 list" where
  "mm_or_ps a b = map2 (OR) a b"

definition mm_and_ps :: "float32 list \<Rightarrow> float32 list \<Rightarrow> float32 list" where
  "mm_and_ps a b = map2 (AND) a b"

definition mm_add_ps :: "float32 list \<Rightarrow> float32 list \<Rightarrow> float32 list" where
  "mm_add_ps a b = map2 fadd a b"

definition mm_mul_ps :: "float32 list \<Rightarrow> float32 list \<Rightarrow> float32 list" where
  "mm_mul_ps a b = map2 fmul a b"

definition mm_sub_ps :: "float32 list \<Rightarrow> float32 list \<Rightarrow> float32 list" where
  "mm_sub_ps a b = map2 fsub a b"

subsection \<open>AVX2 and FMA, eight lanes\<close>

definition mm256_load_ps :: "float32 list \<Rightarrow> nat \<Rightarrow> float32 list" where
  "mm256_load_ps a p = take 8 (drop p a)"

definition mm256_loadu_ps :: "float32 list \<Rightarrow> nat \<Rightarrow> float32 list" where
  "mm256_loadu_ps a p = take 8 (drop p a)"

definition mm256_store_ps :: "nat \<Rightarrow> float32 list \<Rightarrow> outbuf \<Rightarrow> outbuf" where
  "mm256_store_ps p v s = store_lanes p (take 8 v) s"

definition mm256_storeu_ps :: "nat \<Rightarrow> float32 list \<Rightarrow> outbuf \<Rightarrow> outbuf" where
  "mm256_storeu_ps p v s = store_lanes p (take 8 v) s"

definition mm256_set1_epi32 :: "32 word \<Rightarrow> 32 word list" where
  "mm256_set1_epi32 k = replicate 8 k"

definition mm256_set1_ps :: "float32 \<Rightarrow> float32 list" where
  "mm256_set1_ps k = replicate 8 k"

definition mm256_castps_si256 :: "float32 list \<Rightarrow> 32 word list" where
  "mm256_castps_si256 v = v"

definition mm256_castsi256_ps :: "32 word list \<Rightarrow> float32 list" where
  "mm256_castsi256_ps v = v"

definition mm256_and_si256 :: "32 word list \<Rightarrow> 32 word list \<Rightarrow> 32 word list" where
  "mm256_and_si256 a b = map2 (AND) a b"

definition mm256_srli_epi32 :: "32 word list \<Rightarrow> nat \<Rightarrow> 32 word list" where
  "mm256_srli_epi32 a n = map (drop_bit n) a"

definition mm256_sub_epi32 :: "32 word list \<Rightarrow> 32 word list \<Rightarrow> 32 word list" where
  "mm256_sub_epi32 a b = map2 (-) a b"

definition mm256_cvtepi32_ps :: "32 word list \<Rightarrow> float32 list" where
  "mm256_cvtepi32_ps a = map cvt_s32 a"

definition mm256_or_ps :: "float32 list \<Rightarrow> float32 list \<Rightarrow> float32 list" where
  "mm256_or_ps a b = map2 (OR) a b"

definition mm256_and_ps :: "float32 list \<Rightarrow> float32 list \<Rightarrow> float32 list" where
  "mm256_and_ps a b = map2 (AND) a b"

definition mm256_add_ps :: "float32 list \<Rightarrow> float32 list \<Rightarrow> float32 list" where
  "mm256_add_ps a b = map2 fadd a b"

definition mm256_mul_ps :: "float32 list \<Rightarrow> float32 list \<Rightarrow> float32 list" where
  "mm256_mul_ps a b = map2 fmul a b"

definition mm256_sub_ps :: "float32 list \<Rightarrow> float32 list \<Rightarrow> float32 list" where
  "mm256_sub_ps a b = map2 fsub a b"

definition mm256_fmadd_ps :: "float32 list \<Rightarrow> float32 list \<Rightarrow> float32 list \<Rightarrow> float32 list" where
  "mm256_fmadd_ps a b c = map2 (\<lambda>a (b, c). fma a b c) a (zip b c)"

subsection \<open>NEON, four lanes\<close>

definition vdupq_n_s32 :: "32 word \<Rightarrow> 32 word list" where
  "vdupq_n_s32 k = replicate 4 k"

definition vdupq_n_f32 :: "float32 \<Rightarrow> float32 list" where
  "vdupq_n_f32 k = replicate 4 k"

definition vld1q_s32 :: "float32 list \<Rightarrow> nat \<Rightarrow> 32 word list" where
  "vld1q_s32 a p = take 4 (drop p a)"

definition vst1q_f32 :: "nat \<Rightarrow> float32 list \<Rightarrow> outbuf \<Rightarrow> outbuf" where
  "vst1q_f32 p v s = store_lanes p (take 4 v) s"

definition vandq_s32 :: "32 word list \<Rightarrow> 32 word list \<Rightarrow> 32 word list" where
  "vandq_s32 a b = map2 (AND) a b"

definition vorrq_s32 :: "32 word list \<Rightarrow> 32 word list \<Rightarrow> 32 word list" where
  "vorrq_s32 a b = map2 (OR) a b"

definition vshrq_n_s32 :: "32 word list \<Rightarrow> nat \<Rightarrow> 32 word list" where
  "vshrq_n_s32 a n = map (signed_drop_bit n) a"

definition vsubq_s32 :: "32 word list \<Rightarrow> 32 word list \<Rightarrow> 32 word list" where
  "vsubq_s32 a b = map2 (-) a b"

definition vcvtq_f32_s32 :: "32 word list \<Rightarrow> float32 list" where
  "vcvtq_f32_s32 a = map cvt_s32 a"

text \<open>Fixed-point conversion: the integer divided by \<open>2 ^ n\<close>, rounded once.\<close>

definition vcvtq_n_f32_s32 :: "32 word list \<Rightarrow> nat \<Rightarrow> float32 list" where
  "vcvtq_n_f32_s32 a n = map (\<lambda>i. round32 (sint i < 0) (nat \<bar>sint i\<bar>) (2 ^ n)) a"

definition vaddq_f32 :: "float32 list \<Rightarrow> float32 list \<Rightarrow> float32 list" where
  "vaddq_f32 a b = map2 fadd a b"

definition vmulq_f32 :: "float32 list \<Rightarrow> float32 list \<Rightarrow> float32 list" where
  "vmulq_f32 a b = map2 fmul a b"

section \<open>The polynomial macros\<close>

text \<open>
  \<^verbatim>\<open>POLY0\<close> .. \<^verbatim>\<open>POLY5\<close> and their AVX2 and FMA copies (\<^verbatim>\<open>POLYn_AVX2\<close>, \<^verbatim>\<open>POLYn_FMAAVX2\<close>):
  Horner steps \<open>inner * x + c0\<close>. With \<^verbatim>\<open>LOG_POLY_DEGREE\<close> defined as 6 the kernels
  expand \<^verbatim>\<open>POLY5\<close> only.
\<close>

definition POLY0 :: "float32 list \<Rightarrow> float32 \<Rightarrow> float32 list" where
  "POLY0 x c0 = mm_set1_ps c0"

definition POLY1 :: "float32 list \<Rightarrow> float32 \<Rightarrow> float32 \<Rightarrow> float32 list" where
  "POLY1 x c0 c1 = mm_add_ps (mm_mul_ps (POLY0 x c1) x) (mm_set1_ps c0)"

definition POLY2 :: "float32 list \<Rightarrow> float32 \<Rightarrow> float32 \<Rightarrow> float32 \<Rightarrow> float32 list" where
  "POLY2 x c0 c1 c2 = mm_add_ps (mm_mul_ps (POLY1 x c1 c2) x) (mm_set1_ps c0)"

definition POLY3 :: "float32 list \<Rightarrow> float32 \<Rightarrow> float32 \<Rightarrow> float32 \<Rightarrow> float32 \<Rightarrow> float32 list" where
  "POLY3 x c0 c1 c2 c3 = mm_add_ps (mm_mul_ps (POLY2 x c1 c2 c3) x) (mm_set1_ps c0)"

definition POLY4 :: "float32 list \<Rightarrow> float32 \<Rightarrow> float32 \<Rightarrow> float32 \<Rightarrow> float32 \<Rightarrow> float32 \<Rightarrow> float32 list" where
  "POLY4 x c0 c1 c2 c3 c4 = mm_add_ps (mm_mul_ps (POLY3 x c1 c2 c3 c4) x) (mm_set1_ps c0)"

definition POLY5 :: "float32 list \<Rightarrow> float32 \<Rightarrow> float32 \<Rightarrow> float32 \<Rightarrow> float32 \<Rightarrow> float32 \<Rightarrow> float32 \<Rightarrow> float32 list" where
  "POLY5 x c0 c1 c2 c3 c4 c5 = mm_add_ps (mm_mul_ps (POLY4 x c1 c2 c3 c4 c5) x) (mm_set1_ps c0)"

definition POLY0_AVX2 :: "float32 list \<Rightarrow> float32 \<Rightarrow> float32 list" where
  "POLY0_AVX2 x c0 = mm256_set1_ps c0"

definition POLY1_AVX2 :: "float32 list \<Rightarrow> float32 \<Rightarrow> float32 \<Rightarrow> float32 list" where
  "POLY1_AVX2 x c0 c1 = mm256_add_ps (mm256_mul_ps (POLY0_AVX2 x c1) x) (mm256_set1_ps c0)"

definition POLY2_AVX2 :: "float32 list \<Rightarrow> float32 \<Rightarrow> float32 \<Rightarrow> float32 \<Rightarrow> float32 list" where
  "POLY2_AVX2 x c0 c1 c2 = mm256_add_ps (mm256_mul_ps (POLY1_AVX2 x c1 c2) x) (mm256_set1_ps c0)"

definition POLY3_AVX2 :: "float32 list \<Rightarrow> float32 \<Rightarrow> float32 \<Rightarrow> float32 \<Rightarrow> float32 \<Rightarrow> float32 list" where
  "POLY3_AVX2 x c0 c1 c2 c3 = mm256_add_ps (mm256_mul_ps (POLY2_AVX2 x c1 c2 c3) x) (mm256_set1_ps c0)"

definition POLY4_AVX2 :: "float32 list \<Rightarrow> float32 \<Rightarrow> float32 \<Rightarrow> float32 \<Rightarrow> float32 \<Rightarrow> float32 \<Rightarrow> float32 list" where
  "POLY4_AVX2 x c0 c1 c2 c3 c4 = mm256_add_ps (mm256_mul_ps (POLY3_AVX2 x c1 c2 c3 c4) x) (mm256_set1_ps c0)"

definition POLY5_AVX2 :: "float32 list \<Rightarrow> float32 \<Rightarrow> float32 \<Rightarrow> float32 \<Rightarrow> float32 \<Rightarrow> float32 \<Rightarrow> float32 \<Rightarrow> float32 list" where
  "POLY5_AVX2 x c0 c1 c2 c3 c4 c5 = mm256_add_ps (mm256_mul_ps (POLY4_AVX2 x c1 c2 c3 c4 c5) x) (mm256_set1_ps c0)"

definition POLY0_FMAAVX2 :: "float32 list \<Rightarrow> float32 \<Rightarrow> float32 list" where
  "POLY0_FMAAVX2 x c0 = mm256_set1_ps c0"

definition POLY1_FMAAVX2 :: "float32 list \<Rightarrow> float32 \<Rightarrow> float32 \<Rightarrow> float32 list" where
  "POLY1_FMAAVX2 x c0 c1 = mm256_fmadd_ps (POLY0_FMAAVX2 x c1) x (mm256_set1_ps c0)"

definition POLY2_FMAAVX2 :: "float32 list \<Rightarrow> float32 \<Rightarrow> float32 \<Rightarrow> float32 \<Rightarrow> float32 list" where
  "POLY2_FMAAVX2 x c0 c1 c2 = mm256_fmadd_ps (POLY1_FMAAVX2 x c1 c2) x (mm256_set1_ps c0)"

definition POLY3_FMAAVX2 :: "float32 list \<Rightarrow> float32 \<Rightarrow> float32 \<Rightarrow> float32 \<Rightarrow> float32 \<Rightarrow> float32 list" where
  "POLY3_FMAAVX2 x c0 c1 c2 c3 = mm256_fmadd_ps (POLY2_FMAAVX2 x c1 c2 c3) x (mm256_set1_ps c0)"

definition POLY4_FMAAVX2 :: "float32 list \<Rightarrow> float32 \<Rightarrow> float32 \<Rightarrow> float32 \<Rightarrow> float32 \<Rightarrow> float32 \<Rightarrow> float32 list" where
  "POLY4_FMAAVX2 x c0 c1 c2 c3 c4 = mm256_fmadd_ps (POLY3_FMAAVX2 x c1 c2 c3 c4) x (mm256_set1_ps c0)"

definition POLY5_FMAAVX2 :: "float32 list \<Rightarrow> float32 \<Rightarrow> float32 \<Rightarrow> float32 \<Rightarrow> float32 \<Rightarrow> float32 \<Rightarrow> float32 \<Rightarrow> float32 list" where
  "POLY5_FMAAVX2 x c0 c1 c2 c3 c4 c5 = mm256_fmadd_ps (POLY4_FMAAVX2 x c1 c2 c3 c4 c5) x (mm256_set1_ps c0)"

section \<open>The vector kernels\<close>

text \<open>
  The loop \<^verbatim>\<open>for (; number < points; number++) { body; aPtr += W; bPtr += W; }\<close> that
  every vector kernel is built on, returning the pointers it leaves behind.
\<close>

function vec_loop ::
  "nat \<Rightarrow> (nat \<Rightarrow> nat \<Rightarrow> outbuf \<Rightarrow> outbuf) \<Rightarrow> nat \<Rightarrow> nat \<Rightarrow> nat \<Rightarrow> nat \<Rightarrow> outbuf \<Rightarrow> nat \<times> nat \<times> outbuf" where
  "vec_loop W body points number aPtr bPtr s =
     (if number < points
      then vec_loop W body points (number + 1) (aPtr + W) (bPtr + W) (body aPtr bPtr s)
      else (aPtr, bPtr, s))"
  by pat_completeness auto
termination
  by (relation "measure (\<lambda>(W, body, points, number, aPtr, bPtr, s). points - number)") auto

declare vec_loop.simps [simp del]

subsection \<open>Loop bodies\<close>

definition a_avx2_fma_body :: "float32 list \<Rightarrow> nat \<Rightarrow> nat \<Rightarrow> outbuf \<Rightarrow> outbuf" where
  "a_avx2_fma_body aVector aPtr bPtr s =
     (let aVal = mm256_load_ps aVector aPtr;
          bias = mm256_set1_epi32 127;
          leadingOne = mm256_set1_ps (float_lit 1 0);
          exp' = mm256_sub_epi32
                   (mm256_srli_epi32
                      (mm256_and_si256 (mm256_castps_si256 aVal) (mm256_set1_epi32 0x7f800000)) 23)
                   bias;
          bVal = mm256_cvtepi32_ps exp';
          frac = mm256_or_ps leadingOne
                   (mm256_and_ps aVal (mm256_castsi256_ps (mm256_set1_epi32 0x7fffff)));
          mantissa = POLY5_FMAAVX2 frac
                       (float_lit 31157899 7) (float_lit (- 33241990) 7) (float_lit 25988452 7)
                       (float_lit (- 12315303) 7) (float_lit 31821337 8) (float_lit (- 34436006) 9);
          bVal = mm256_fmadd_ps mantissa (mm256_sub_ps frac leadingOne) bVal
      in mm256_store_ps bPtr bVal s)"

definition a_avx2_body :: "float32 list \<Rightarrow> nat \<Rightarrow> nat \<Rightarrow> outbuf \<Rightarrow> outbuf" where
  "a_avx2_body aVector aPtr bPtr s =
     (let aVal = mm256_load_ps aVector aPtr;
          bias = mm256_set1_epi32 127;
          leadingOne = mm256_set1_ps (float_lit 1 0);
          exp' = mm256_sub_epi32
                   (mm256_srli_epi32
                      (mm256_and_si256 (mm256_castps_si256 aVal) (mm256_set1_epi32 0x7f800000)) 23)
                   bias;
          bVal = mm256_cvtepi32_ps exp';
          frac = mm256_or_ps leadingOne
                   (mm256_and_ps aVal (mm256_castsi256_ps (mm256_set1_epi32 0x7fffff)));
          mantissa = POLY5_AVX2 frac
                       (float_lit 31157899 7) (float_lit (- 33241990) 7) (float_lit 25988452 7)
                       (float_lit (- 12315303) 7) (float_lit 31821337 8) (float_lit (- 34436006) 9);
          bVal = mm256_add_ps (mm256_mul_ps mantissa (mm256_sub_ps frac leadingOne)) bVal
      in mm256_store_ps bPtr bVal s)"

definition a_sse4_1_body :: "float32 list \<Rightarrow> nat \<Rightarrow> nat \<Rightarrow> outbuf \<Rightarrow> outbuf" where
  "a_sse4_1_body aVector aPtr bPtr s =
     (let aVal = mm_load_ps aVector aPtr;
          bias = mm_set1_epi32 127;
          leadingOne = mm_set1_ps (float_lit 1 0);
          exp' = mm_sub_epi32
                   (mm_srli_epi32
                      (mm_and_si128 (mm_castps_si128 aVal) (mm_set1_epi32 0x7f800000)) 23)
                   bias;
          bVal = mm_cvtepi32_ps exp';
          frac = mm_or_ps leadingOne
                   (mm_and_ps aVal (mm_castsi128_ps (mm_set1_epi32 0x7fffff)));
          mantissa = POLY5 frac
                       (float_lit 31157899 7) (float_lit (- 33241990) 7) (float_lit 25988452 7)
                       (float_lit (- 12315303) 7) (float_lit 31821337 8) (float_lit (- 34436006) 9);
          bVal = mm_add_ps bVal (mm_mul_ps mantissa (mm_sub_ps frac leadingOne))
      in mm_store_ps bPtr bVal s)"

definition u_sse4_1_body :: "float32 list \<Rightarrow> nat \<Rightarrow> nat \<Rightarrow> outbuf \<Rightarrow> outbuf" where
  "u_sse4_1_body aVector aPtr bPtr s =
     (let aVal = mm_loadu_ps aVector aPtr;
          bias = mm_set1_epi32 127;
          leadingOne = mm_set1_ps (float_lit 1 0);
          exp' = mm_sub_epi32
                   (mm_srli_epi32
                      (mm_and_si128 (mm_castps_si128 aVal) (mm_set1_epi32 0x7f800000)) 23)
                   bias;
          bVal = mm_cvtepi32_ps exp';
          frac = mm_or_ps leadingOne
                   (mm_and_ps aVal (mm_castsi128_ps (mm_set1_epi32 0x7fffff)));
          mantissa = POLY5 frac
                       (float_lit 31157899 7) (float_lit (- 33241990) 7) (float_lit 25988452 7)
                       (float_lit (- 12315303) 7) (float_lit 31821337 8) (float_lit (- 34436006) 9);
          bVal = mm_add_ps bVal (mm_mul_ps mantissa (mm_sub_ps frac leadingOne))
      in mm_storeu_ps bPtr bVal s)"

definition u_avx2_fma_body :: "float32 list \<Rightarrow> nat \<Rightarrow> nat \<Rightarrow> outbuf \<Rightarrow> outbuf" where
  "u_avx2_fma_body aVector aPtr bPtr s =
     (let aVal = mm256_loadu_ps aVector aPtr;
          bias = mm256_set1_epi32 127;
          leadingOne = mm256_set1_ps (float_lit 1 0);
          exp' = mm256_sub_epi32
                   (mm256_srli_epi32
                      (mm256_and_si256 (mm256_castps_si256 aVal) (mm256_set1_epi32 0x7f800000)) 23)
                   bias;
          bVal = mm256_cvtepi32_ps exp';
          frac = mm256_or_ps leadingOne
                   (mm256_and_ps aVal (mm256_castsi256_ps (mm256_set1_epi32 0x7fffff)));
          mantissa = POLY5_FMAAVX2 frac
                       (float_lit 31157899 7) (float_lit (- 33241990) 7) (float_lit 25988452 7)
                       (float_lit (- 12315303) 7) (float_lit 31821337 8) (float_lit (- 34436006) 9);
          bVal = mm256_fmadd_ps mantissa (mm256_sub_ps frac leadingOne) bVal
      in mm256_storeu_ps bPtr bVal s)"

definition u_avx2_body :: "float32 list \<Rightarrow> nat \<Rightarrow> nat \<Rightarrow> outbuf \<Rightarrow> outbuf" where
  "u_avx2_body aVector aPtr bPtr s =
     (let aVal = mm256_loadu_ps aVector aPtr;
          bias = mm256_set1_epi32 127;
          leadingOne = mm256_set1_ps (float_lit 1 0);
          exp' = mm256_sub_epi32
                   (mm256_srli_epi32
                      (mm256_and_si256 (mm256_castps_si256 aVal) (mm256_set1_epi32 0x7f800000)) 23)
                   bias;
          bVal = mm256_cvtepi32_ps exp';
          frac = mm256_or_ps leadingOne
                   (mm256_and_ps aVal (mm256_castsi256_ps (mm256_set1_epi32 0x7fffff)));
          mantissa = POLY5_AVX2 frac
                       (float_lit 31157899 7) (float_lit (- 33241990) 7) (float_lit 25988452 7)
                       (float_lit (- 12315303) 7) (float_lit 31821337 8) (float_lit (- 34436006) 9);
          bVal = mm256_add_ps (mm256_mul_ps mantissa (mm256_sub_ps frac leadingOne)) bVal
      in mm256_storeu_ps bPtr bVal s)"

text \<open>
  The NEON body: \<^verbatim>\<open>VLOG2Q_NEON_PREAMBLE\<close> and \<^verbatim>\<open>VLOG2Q_NEON_F32\<close> expanded. The
  significand is converted as a fixed-point number and the polynomial
  \<open>p0 + p1 x + \<dots> + p6 x\<^sup>6\<close> is summed term by term onto the exponent.
\<close>

definition neon_body :: "float32 list \<Rightarrow> nat \<Rightarrow> nat \<Rightarrow> outbuf \<Rightarrow> outbuf" where
  "neon_body aVector aPtr bPtr s =
     (let one = vdupq_n_s32 0x000800000;
          p0 = vdupq_n_f32 (double_lit (- 30400402727048585) 16);
          p1 = vdupq_n_f32 (double_lit 61129631282966113 16);
          p2 = vdupq_n_f32 (double_lit (- 53419892024633207) 16);
          p3 = vdupq_n_f32 (double_lit 32865287703753912 16);
          p4 = vdupq_n_f32 (double_lit (- 12669182593441635) 16);
          p5 = vdupq_n_f32 (double_lit 2751487703421256 16);
          p6 = vdupq_n_f32 (double_lit (- 256910888150985) 16);
          exp_mask = vdupq_n_s32 0x7f800000;
          sig_mask = vdupq_n_s32 0x007fffff;
          exp_bias = vdupq_n_s32 127;
          aval = vld1q_s32 aVector aPtr;
          exponent_i = vandq_s32 aval exp_mask;
          significand_i = vandq_s32 aval sig_mask;
          exponent_i = vshrq_n_s32 exponent_i 23;
          significand_i = vorrq_s32 one significand_i;
          significand_f = vcvtq_n_f32_s32 significand_i 23;
          exponent_i = vsubq_s32 exponent_i exp_bias;
          exponent_f = vcvtq_f32_s32 exponent_i;
          log2_approx = vaddq_f32 exponent_f p0;
          tmp1 = vmulq_f32 significand_f p1;
          log2_approx = vaddq_f32 log2_approx tmp1;
          sig_2 = vmulq_f32 significand_f significand_f;
          tmp1 = vmulq_f32 sig_2 p2;
          log2_approx = vaddq_f32 log2_approx tmp1;
          sig_3 = vmulq_f32 sig_2 significand_f;
          tmp1 = vmulq_f32 sig_3 p3;
          log2_approx = vaddq_f32 log2_approx tmp1;
          sig_4 = vmulq_f32 sig_2 sig_2;
          tmp1 = vmulq_f32 sig_4 p4;
          log2_approx = vaddq_f32 log2_approx tmp1;
          sig_5 = vmulq_f32 sig_3 sig_2;
          tmp1 = vmulq_f32 sig_5 p5;
          log2_approx = vaddq_f32 log2_approx tmp1;
          sig_6 = vmulq_f32 sig_3 sig_3;
          tmp1 = vmulq_f32 sig_6 p6;
          log2_approx = vaddq_f32 log2_approx tmp1
      in vst1q_f32 bPtr log2_approx s)"

subsection \<open>Kernels\<close>

text \<open>
  Each kernel runs its loop over \<open>num_points div W\<close> groups from offset 0 of a buffer
  with an empty store log, then hands the remaining elements to a scalar kernel: the
  kernels of the aligned half of the file to \<^verbatim>\<open>volk_32f_log2_32f_generic\<close>, those of the
  unaligned half to \<^verbatim>\<open>volk_32f_log2_32f_u_generic\<close>.
\<close>

definition volk_32f_log2_32f_a_avx2_fma ::
  "(float32 \<Rightarrow> float32) \<Rightarrow> float32 list \<Rightarrow> float32 list \<Rightarrow> nat \<Rightarrow> outbuf" where
  "volk_32f_log2_32f_a_avx2_fma lm bVector aVector num_points =
     (let eighthPoints = num_points div 8 in
      case vec_loop 8 (a_avx2_fma_body aVector) eighthPoints 0 0 0 (fresh bVector) of
        (aPtr, bPtr, s) \<Rightarrow>
          (let number = eighthPoints * 8
           in volk_32f_log2_32f_generic lm aVector aPtr bPtr (num_points - number) s))"

definition volk_32f_log2_32f_a_avx2 ::
  "(float32 \<Rightarrow> float32) \<Rightarrow> float32 list \<Rightarrow> float32 list \<Rightarrow> nat \<Rightarrow> outbuf" where
  "volk_32f_log2_32f_a_avx2 lm bVector aVector num_points =
     (let eighthPoints = num_points div 8 in
      case vec_loop 8 (a_avx2_body aVector) eighthPoints 0 0 0 (fresh bVector) of
        (aPtr, bPtr, s) \<Rightarrow>
          (let number = eighthPoints * 8
           in volk_32f_log2_32f_generic lm aVector aPtr bPtr (num_points - number) s))"

definition volk_32f_log2_32f_a_sse4_1 ::
  "(float32 \<Rightarrow> float32) \<Rightarrow> float32 list \<Rightarrow> float32 list \<Rightarrow> nat \<Rightarrow> outbuf" where
  "volk_32f_log2_32f_a_sse4_1 lm bVector aVector num_points =
     (let quarterPoints = num_points div 4 in
      case vec_loop 4 (a_sse4_1_body aVector) quarterPoints 0 0 0 (fresh bVector) of
        (aPtr, bPtr, s) \<Rightarrow>
          (let number = quarterPoints * 4
           in volk_32f_log2_32f_generic lm aVector aPtr bPtr (num_points - number) s))"

definition volk_32f_log2_32f_neon ::
  "(float32 \<Rightarrow> float32) \<Rightarrow> float32 list \<Rightarrow> float32 list \<Rightarrow> nat \<Rightarrow> outbuf" where
  "volk_32f_log2_32f_neon lm bVector aVector num_points =
     (let quarterPoints = num_points div 4 in
      case vec_loop 4 (neon_body aVector) quarterPoints 0 0 0 (fresh bVector) of
        (aPtr, bPtr, s) \<Rightarrow>
          (let number = quarterPoints * 4
           in volk_32f_log2_32f_generic lm aVector aPtr bPtr (num_points - number) s))"

definition volk_32f_log2_32f_u_sse4_1 ::
  "(float32 \<Rightarrow> float32) \<Rightarrow> float32 list \<Rightarrow> float32 list \<Rightarrow> nat \<Rightarrow> outbuf" where
  "volk_32f_log2_32f_u_sse4_1 lm bVector aVector num_points =
     (let quarterPoints = num_points div 4 in
      case vec_loop 4 (u_sse4_1_body aVector) quarterPoints 0 0 0 (fresh bVector) of
        (aPtr, bPtr, s) \<Rightarrow>
          (let number = quarterPoints * 4
           in volk_32f_log2_32f_u_generic lm aVector aPtr bPtr (num_points - number) s))"

definition volk_32f_log2_32f_u_avx2_fma ::
  "(float32 \<Rightarrow> float32) \<Rightarrow> float32 list \<Rightarrow> float32 list \<Rightarrow> nat \<Rightarrow> outbuf" where
  "volk_32f_log2_32f_u_avx2_fma lm bVector aVector num_points =
     (let eighthPoints = num_points div 8 in
      case vec_loop 8 (u_avx2_fma_body aVector) eighthPoints 0 0 0 (fresh bVector) of
        (aPtr, bPtr, s) \<Rightarrow>
          (let number = eighthPoints * 8
           in volk_32f_log2_32f_u_generic lm aVector aPtr bPtr (num_points - number) s))"

definition volk_32f_log2_32f_u_avx2 ::
  "(float32 \<Rightarrow> float32) \<Rightarrow> float32 list \<Rightarrow> float32 list \<Rightarrow> nat \<Rightarrow> outbuf" where
  "volk_32f_log2_32f_u_avx2 lm bVector aVector num_points =
     (let eighthPoints = num_points div 8 in
      case vec_loop 8 (u_avx2_body aVector) eighthPoints 0 0 0 (fresh bVector) of
        (aPtr, bPtr, s) \<Rightarrow>
          (let number = eighthPoints * 8
           in volk_32f_log2_32f_u_generic lm aVector aPtr bPtr (num_points - number) s))"

section \<open>One lane of each loop body\<close>

text \<open>
  The loop bodies work lane by lane. These functions are what one lane computes from one
  input element, with the operations in the order of the source; the lemmas
  \<open>a_sse4_1_body_lanes\<close> etc. below prove that each body stores exactly these values.
  \<open>horner x [c0, \<dots>, c5]\<close> is the expansion of \<^verbatim>\<open>POLY5(x, c0, \<dots>, c5)\<close> in one lane,
  \<open>horner_fma\<close> that of \<^verbatim>\<open>POLY5_FMAAVX2\<close>.
\<close>

primrec horner :: "float32 \<Rightarrow> float32 list \<Rightarrow> float32" where
  "horner x [] = plus_zero"
| "horner x (c # cs) = (if cs = [] then c else fadd (fmul (horner x cs) x) c)"

primrec horner_fma :: "float32 \<Rightarrow> float32 list \<Rightarrow> float32" where
  "horner_fma x [] = plus_zero"
| "horner_fma x (c # cs) = (if cs = [] then c else fma (horner_fma x cs) x c)"

definition log2_coeffs :: "float32 list" where
  "log2_coeffs = [float_lit 31157899 7, float_lit (- 33241990) 7, float_lit 25988452 7,
                  float_lit (- 12315303) 7, float_lit 31821337 8, float_lit (- 34436006) 9]"

definition lane_exponent :: "float32 \<Rightarrow> float32" where
  "lane_exponent x = cvt_s32 (drop_bit 23 (x AND 0x7f800000) - 127)"

definition lane_frac :: "float32 \<Rightarrow> float32" where
  "lane_frac x = float_lit 1 0 OR (x AND 0x7fffff)"

definition sse4_1_lane :: "float32 \<Rightarrow> float32" where
  "sse4_1_lane x =
     fadd (lane_exponent x)
       (fmul (horner (lane_frac x) log2_coeffs) (fsub (lane_frac x) (float_lit 1 0)))"

definition avx2_lane :: "float32 \<Rightarrow> float32" where
  "avx2_lane x =
     fadd (fmul (horner (lane_frac x) log2_coeffs) (fsub (lane_frac x) (float_lit 1 0)))
       (lane_exponent x)"

definition avx2_fma_lane :: "float32 \<Rightarrow> float32" where
  "avx2_fma_lane x =
     fma (horner_fma (lane_frac x) log2_coeffs) (fsub (lane_frac x) (float_lit 1 0))
       (lane_exponent x)"

definition neon_lane :: "float32 \<Rightarrow> float32" where
  "neon_lane x =
     (let significand_f = round32 (sint (0x000800000 OR (x AND 0x007fffff)) < 0)
                            (nat \<bar>sint (0x000800000 OR (x AND 0x007fffff))\<bar>) (2 ^ 23);
          exponent_f = cvt_s32 (signed_drop_bit 23 (x AND 0x7f800000) - 127);
          sig_2 = fmul significand_f significand_f;
          sig_3 = fmul sig_2 significand_f;
          sig_4 = fmul sig_2 sig_2;
          sig_5 = fmul sig_3 sig_2;
          sig_6 = fmul sig_3 sig_3
      in fadd (fadd (fadd (fadd (fadd (fadd (fadd exponent_f
                (double_lit (- 30400402727048585) 16))
                (fmul significand_f (double_lit 61129631282966113 16)))
                (fmul sig_2 (double_lit (- 53419892024633207) 16)))
                (fmul sig_3 (double_lit 32865287703753912 16)))
                (fmul sig_4 (double_lit (- 12669182593441635) 16)))
                (fmul sig_5 (double_lit 2751487703421256 16)))
                (fmul sig_6 (double_lit (- 256910888150985) 16)))"

text \<open>The element \<^verbatim>\<open>volk_32f_log2_32f_u_generic\<close> stores for the input \<open>f\<close>.\<close>

definition u_scalar :: "(float32 \<Rightarrow> float32) \<Rightarrow> float32 \<Rightarrow> float32" where
  "u_scalar lm f = (let result = log2f lm f in if isinf result then float_lit (- 127) 0 else result)"

text \<open>
  The buffer a vector kernel of width \<open>W\<close> leaves behind, in one formula: the lane function
  on the first \<open>N div W * W\<close> elements, the scalar function on the rest, the cells beyond
  \<open>N\<close> untouched, and one store per index in increasing order.
\<close>

definition sweep :: "nat \<Rightarrow> (float32 \<Rightarrow> float32) \<Rightarrow> (float32 \<Rightarrow> float32) \<Rightarrow> float32 list \<Rightarrow> float32 list \<Rightarrow> nat \<Rightarrow> outbuf" where
  "sweep W lane scalar b a N =
     \<lparr>cells = map lane (take (N div W * W) a)
               @ map scalar (take (N - N div W * W) (drop (N div W * W) a)) @ drop N b,
      stores = [0..<N]\<rparr>"

section \<open>Notions the claims are stated with\<close>

text \<open>
  The buffer after the vector loop of a kernel, before the scalar kernel runs: the loop of
  width \<open>W\<close> with the given body over \<open>num_points div W\<close> groups.
\<close>

definition vector_part :: "nat \<Rightarrow> (nat \<Rightarrow> nat \<Rightarrow> outbuf \<Rightarrow> outbuf) \<Rightarrow> float32 list \<Rightarrow> nat \<Rightarrow> outbuf" where
  "vector_part W body bVector num_points =
     (case vec_loop W body (num_points div W) 0 0 0 (fresh bVector) of (aPtr, bPtr, s) \<Rightarrow> s)"

text \<open>The indices \<open>n\<close> groups of \<open>W\<close> lanes cover, group after group.\<close>

definition groups :: "nat \<Rightarrow> nat \<Rightarrow> nat list" where
  "groups W n = concat (map (\<lambda>g. [g * W..<g * W + W]) [0..<n])"

text \<open>
  A sample platform function for closed examples: \<open>\<lfloor>log\<^sub>2 x\<rfloor>\<close> as a float, which is
  the exact logarithm at every power of two.
\<close>

definition log2f_trunc :: "float32 \<Rightarrow> float32" where
  "log2f_trunc x = cvt_s32 (word_of_int (ilog2 (nat (scaled x)) (2 ^ 149)))"

text \<open>
  The real numbers that are binary32 values of magnitude below \<open>2 ^ 126\<close>: a significand of
  at most 24 bits times a power of two no smaller than \<open>2 ^ -149\<close>.
\<close>

definition representable :: "real \<Rightarrow> bool" where
  "representable r = (\<exists>j t. \<bar>r\<bar> = real j * 2 powi t \<and> j < 2 ^ 24 \<and> - 149 \<le> t \<and> t \<le> 102)"

text \<open>
  The vector lane as the specification words it: \<open>E\<close> is the biased exponent field minus
  the bias 127, converted to float; \<open>m\<close> is the significand field with the implicit leading
  one (the pattern of \<open>1.0\<close>) ORed in; \<open>P(m) = c0 + m (c1 + m (c2 + \<dots>))\<close> by Horner's
  scheme; the result is \<open>E + P(m) (m - 1)\<close>, every operation in single precision.
\<close>

definition spec_exponent :: "float32 \<Rightarrow> float32" where
  "spec_exponent x = cvt_s32 (word_of_nat (expo x) - 127)"

definition spec_significand :: "float32 \<Rightarrow> float32" where
  "spec_significand x = float_lit 1 0 OR word_of_nat (mant x)"

definition spec_poly :: "float32 \<Rightarrow> float32" where
  "spec_poly m =
     fadd (float_lit 31157899 7) (fmul m
       (fadd (float_lit (- 33241990) 7) (fmul m
         (fadd (float_lit 25988452 7) (fmul m
           (fadd (float_lit (- 12315303) 7) (fmul m
             (fadd (float_lit 31821337 8) (fmul m (float_lit (- 34436006) 9))))))))))"

definition spec_lane :: "float32 \<Rightarrow> float32" where
  "spec_lane x =
     fadd (spec_exponent x)
       (fmul (spec_poly (spec_significand x)) (fsub (spec_significand x) (float_lit 1 0)))"

text \<open>
  The floats that are a power of two \<open>2\<^sup>k\<close> in the normal range: positive, a zero significand
  field and a biased exponent \<open>k + 127\<close> between 1 and 254.
\<close>

definition power_of_two :: "float32 \<Rightarrow> bool" where
  "power_of_two x = (\<not> sign_of x \<and> is_normal x \<and> mant x = 0)"

section \<open>Notions of the error analysis\<close>

text \<open>
  Real polynomials as coefficient lists, lowest degree first, for the error analysis:
  evaluation, sum, product, derivative, the expansion around another point, and a bound of
  the absolute value on \<open>[-h, h]\<close>.
\<close>

primrec peval :: "real list \<Rightarrow> real \<Rightarrow> real" where
  "peval [] x = 0"
| "peval (c # cs) x = c + x * peval cs x"

fun padd :: "real list \<Rightarrow> real list \<Rightarrow> real list" where
  "padd [] q = q"
| "padd (a # p) [] = a # p"
| "padd (a # p) (b # q) = (a + b) # padd p q"

primrec smult :: "real \<Rightarrow> real list \<Rightarrow> real list" where
  "smult a [] = []"
| "smult a (c # cs) = (a * c) # smult a cs"

primrec pmul :: "real list \<Rightarrow> real list \<Rightarrow> real list" where
  "pmul [] q = []"
| "pmul (a # p) q = padd (smult a q) (0 # pmul p q)"

primrec pderiv_l :: "real list \<Rightarrow> real list" where
  "pderiv_l [] = []"
| "pderiv_l (c # cs) = padd cs (0 # pderiv_l cs)"

primrec pshift :: "real \<Rightarrow> real list \<Rightarrow> real list" where
  "pshift a [] = []"
| "pshift a (c # cs) = padd [c] (padd (smult a (pshift a cs)) (0 # pshift a cs))"

primrec pabs :: "real list \<Rightarrow> real \<Rightarrow> real" where
  "pabs [] h = 0"
| "pabs (c # cs) h = \<bar>c\<bar> + h * pabs cs h"

text \<open>
  \<open>pcheck cs lo hi a h n\<close>: on each of the \<open>n\<close> intervals of half width \<open>h\<close> that follow
  \<open>a\<close>, the expansion of the polynomial around the midpoint stays within \<open>[lo, hi]\<close>.
\<close>

fun pcheck :: "real list \<Rightarrow> real \<Rightarrow> real \<Rightarrow> real \<Rightarrow> real \<Rightarrow> nat \<Rightarrow> bool" where
  "pcheck cs lo hi a h 0 = True"
| "pcheck cs lo hi a h (Suc n) =
     ((case pshift (a + h) cs of
         [] \<Rightarrow> lo \<le> 0 \<and> 0 \<le> hi
       | r # rs \<Rightarrow> lo \<le> r - h * pabs rs h \<and> r + h * pabs rs h \<le> hi)
      \<and> pcheck cs lo hi (a + 2 * h) h n)"

text \<open>The coefficients of the two polynomials as real numbers, lowest degree first.\<close>

definition log2_poly :: "real list" where
  "log2_poly = map valof log2_coeffs"

definition neon_poly :: "real list" where
  "neon_poly = map valof
     [double_lit (- 30400402727048585) 16, double_lit 61129631282966113 16,
      double_lit (- 53419892024633207) 16, double_lit 32865287703753912 16,
      double_lit (- 12669182593441635) 16, double_lit 2751487703421256 16,
      double_lit (- 256910888150985) 16]"

text \<open>
  \<open>close_to x r e\<close>: the float \<open>x\<close> is finite and its value is within \<open>e\<close> of the real number
  \<open>r\<close>.
\<close>

definition close_to :: "float32 \<Rightarrow> real \<Rightarrow> real \<Rightarrow> bool" where
  "close_to x r e = (is_finite x \<and> \<bar>valof x - r\<bar> \<le> e)"

section \<open>Lists, stores and loops\<close>

lemma map2_replicate_left: "map2 f (replicate n c) xs = map (f c) (take n xs)"
  by (induction xs arbitrary: n) (auto simp: take_Cons' replicate_Suc[symmetric] simp del: replicate_Suc split: nat.splits, (case_tac n; simp)+)

lemma map2_replicate_right: "map2 f xs (replicate n c) = map (\<lambda>x. f x c) (take n xs)"
  by (induction xs arbitrary: n) (auto, (case_tac n; simp)+)

lemma map2_map_same: "map2 f (map g xs) (map h xs) = map (\<lambda>x. f (g x) (h x)) xs"
  by (induction xs) auto

lemma cells_store_lanes:
  "p + length vs \<le> length (cells s) \<Longrightarrow>
   cells (store_lanes p vs s) = take p (cells s) @ vs @ drop (p + length vs) (cells s)"
proof (induction vs arbitrary: p s)
  case Nil then show ?case by simp
next
  case (Cons v vs)
  have "cells (store_lanes (p + 1) vs (store p v s))
      = take (p + 1) (cells (store p v s)) @ vs @ drop (p + 1 + length vs) (cells (store p v s))"
    using Cons.prems by (intro Cons.IH) (simp add: store_def)
  moreover have "take (p + 1) ((cells s)[p := v]) = take p (cells s) @ [v]"
    using Cons.prems by (simp add: take_Suc_conv_app_nth)
  ultimately show ?case using Cons.prems by (simp add: store_def)
qed

lemma stores_store_lanes:
  "stores (store_lanes p vs s) = stores s @ [p..<p + length vs]"
proof (induction vs arbitrary: p s)
  case Nil then show ?case by simp
next
  case (Cons v vs)
  have e: "[p..<Suc (p + length vs)] = p # [Suc p..<Suc (p + length vs)]"
    by (rule upt_conv_Cons) simp
  show ?case by (simp add: Cons.IH store_def e del: upt_Suc)
qed

lemma length_cells_store_lanes: "length (cells (store_lanes p vs s)) = length (cells s)"
  by (induction vs arbitrary: p s) (auto simp: store_def)

lemma vec_loop_unfold:
  assumes body: "\<And>p s. body p p s = store_lanes p (map f (take W (drop p a))) s"
  shows "p + (points - number) * W \<le> length a \<Longrightarrow> p + (points - number) * W \<le> length (cells s) \<Longrightarrow>
    vec_loop W body points number p p s =
      (p + (points - number) * W, p + (points - number) * W,
       \<lparr>cells = take p (cells s) @ map f (take ((points - number) * W) (drop p a))
                 @ drop (p + (points - number) * W) (cells s),
        stores = stores s @ [p..<p + (points - number) * W]\<rparr>)"
proof (induction "points - number" arbitrary: number p s)
  case 0
  then show ?case by (subst vec_loop.simps) simp
next
  case (Suc k)
  then have lt: "number < points" and k: "k = points - (number + 1)" by auto
  have eq: "points - number = Suc k" using Suc.hyps by simp
  let ?s = "store_lanes p (map f (take W (drop p a))) s"
  have len: "length (take W (drop p a)) = W"
    using Suc.prems eq by simp
  have c: "cells ?s = take p (cells s) @ map f (take W (drop p a)) @ drop (p + W) (cells s)"
    using Suc.prems eq len by (subst cells_store_lanes) auto
  have st: "stores ?s = stores s @ [p..<p + W]"
    by (simp only: stores_store_lanes length_map len)
  have lc: "length (cells ?s) = length (cells s)" by (simp add: length_cells_store_lanes)
  have IH: "vec_loop W body points (number + 1) (p + W) (p + W) ?s =
      (p + W + k * W, p + W + k * W,
       \<lparr>cells = take (p + W) (cells ?s) @ map f (take (k * W) (drop (p + W) a))
                 @ drop (p + W + k * W) (cells ?s),
        stores = stores ?s @ [p + W..<p + W + k * W]\<rparr>)"
    using Suc.hyps(1)[OF k, of "p + W" ?s] Suc.prems eq lc k by (simp add: algebra_simps)
  have t1: "take (p + W) (cells ?s) = take p (cells s) @ map f (take W (drop p a))"
    using Suc.prems eq len by (simp add: c)
  have t2: "drop (p + W + k * W) (cells ?s) = drop (p + W + k * W) (cells s)"
    using Suc.prems eq len by (simp add: c ac_simps)
  have t3: "map f (take W (drop p a)) @ map f (take (k * W) (drop (p + W) a))
          = map f (take (W + k * W) (drop p a))"
    by (simp add: take_add add.commute flip: map_append)
  have t4: "[p..<p + W] @ [p + W..<p + W + k * W] = [p..<p + (W + k * W)]"
    by (metis add.assoc le_add1 upt_add_eq_append)
  have step: "vec_loop W body points number p p s
      = vec_loop W body points (number + 1) (p + W) (p + W) ?s"
    using lt by (subst vec_loop.simps) (simp add: body)
  show ?case
    unfolding eq step IH t1 t2 st
    using t3 t4 by (simp add: add.assoc)
qed

section \<open>The loop bodies, lane by lane\<close>

lemma map2_left: "map2 f (map g xs) xs = map (\<lambda>x. f (g x) x) xs"
  by (induction xs) auto
lemma map2_right: "map2 f xs (map h xs) = map (\<lambda>x. f x (h x)) xs"
  by (induction xs) auto
lemma zip_replicate_right: "zip xs (replicate n c) = map (\<lambda>x. (x, c)) (take n xs)"
  by (induction xs arbitrary: n) (auto, (case_tac n; simp)+)
lemma map3_same: "map2 f (map g xs) (map (\<lambda>x. (h x, k x)) xs) = map (\<lambda>x. f (g x) (h x, k x)) xs"
  by (induction xs) auto
lemma zip_map_same: "zip (map g xs) (map h xs) = map (\<lambda>x. (g x, h x)) xs"
  by (induction xs) auto

lemmas lanewise = map2_replicate_left map2_replicate_right map2_map_same map2_left map2_right
  zip_replicate_right map3_same zip_map_same take_map

lemmas mm_defs = mm_load_ps_def mm_loadu_ps_def mm_store_ps_def mm_storeu_ps_def mm_set1_epi32_def
  mm_set1_ps_def mm_castps_si128_def mm_castsi128_ps_def mm_and_si128_def mm_srli_epi32_def
  mm_sub_epi32_def mm_cvtepi32_ps_def mm_or_ps_def mm_and_ps_def mm_add_ps_def mm_mul_ps_def
  mm_sub_ps_def POLY0_def POLY1_def POLY2_def POLY3_def POLY4_def POLY5_def

lemma a_sse4_1_body_lanes:
  "a_sse4_1_body a p b s = store_lanes b (map sse4_1_lane (take 4 (drop p a))) s"
  unfolding a_sse4_1_body_def Let_def mm_defs
  by (simp add: lanewise o_def sse4_1_lane_def[abs_def] lane_exponent_def lane_frac_def log2_coeffs_def)

lemmas mm256_defs = mm256_load_ps_def mm256_loadu_ps_def mm256_store_ps_def mm256_storeu_ps_def
  mm256_set1_epi32_def mm256_set1_ps_def mm256_castps_si256_def mm256_castsi256_ps_def
  mm256_and_si256_def mm256_srli_epi32_def mm256_sub_epi32_def mm256_cvtepi32_ps_def
  mm256_or_ps_def mm256_and_ps_def mm256_add_ps_def mm256_mul_ps_def mm256_sub_ps_def
  mm256_fmadd_ps_def POLY0_AVX2_def POLY1_AVX2_def POLY2_AVX2_def POLY3_AVX2_def POLY4_AVX2_def
  POLY5_AVX2_def POLY0_FMAAVX2_def POLY1_FMAAVX2_def POLY2_FMAAVX2_def POLY3_FMAAVX2_def
  POLY4_FMAAVX2_def POLY5_FMAAVX2_def

lemmas neon_defs = vdupq_n_s32_def vdupq_n_f32_def vld1q_s32_def vst1q_f32_def vandq_s32_def
  vorrq_s32_def vshrq_n_s32_def vsubq_s32_def vcvtq_f32_s32_def vcvtq_n_f32_s32_def
  vaddq_f32_def vmulq_f32_def

lemmas lane_defs = lane_exponent_def lane_frac_def log2_coeffs_def

lemma u_sse4_1_body_lanes:
  "u_sse4_1_body a p b s = store_lanes b (map sse4_1_lane (take 4 (drop p a))) s"
  unfolding u_sse4_1_body_def Let_def mm_defs
  by (simp add: lanewise o_def sse4_1_lane_def[abs_def] lane_defs)

lemma a_avx2_body_lanes:
  "a_avx2_body a p b s = store_lanes b (map avx2_lane (take 8 (drop p a))) s"
  unfolding a_avx2_body_def Let_def mm256_defs
  by (simp add: lanewise o_def avx2_lane_def[abs_def] lane_defs)

lemma u_avx2_body_lanes:
  "u_avx2_body a p b s = store_lanes b (map avx2_lane (take 8 (drop p a))) s"
  unfolding u_avx2_body_def Let_def mm256_defs
  by (simp add: lanewise o_def avx2_lane_def[abs_def] lane_defs)

lemma a_avx2_fma_body_lanes:
  "a_avx2_fma_body a p b s = store_lanes b (map avx2_fma_lane (take 8 (drop p a))) s"
  unfolding a_avx2_fma_body_def Let_def mm256_defs
  by (simp add: lanewise o_def avx2_fma_lane_def[abs_def] lane_defs)

lemma u_avx2_fma_body_lanes:
  "u_avx2_fma_body a p b s = store_lanes b (map avx2_fma_lane (take 8 (drop p a))) s"
  unfolding u_avx2_fma_body_def Let_def mm256_defs
  by (simp add: lanewise o_def avx2_fma_lane_def[abs_def] lane_defs)

lemma neon_body_lanes:
  "neon_body a p b s = store_lanes b (map neon_lane (take 4 (drop p a))) s"
  unfolding neon_body_def Let_def neon_defs
  by (simp add: lanewise o_def neon_lane_def[abs_def] Let_def)

section \<open>The scalar loops and the kernels as sweeps\<close>

lemma scalar_step:
  assumes "aPtr < length a" "bPtr < length (cells s)"
  shows "take (bPtr + 1) (cells (store bPtr v s)) = take bPtr (cells s) @ [v]"
    and "drop (bPtr + 1 + k) (cells (store bPtr v s)) = drop (bPtr + 1 + k) (cells s)"
    and "f (a ! aPtr) # map f (take k (drop (aPtr + 1) a)) = map f (take (Suc k) (drop aPtr a))"
    and "stores (store bPtr v s) @ [bPtr + 1..<bPtr + 1 + k] = stores s @ [bPtr..<bPtr + Suc k]"
    and "length (cells (store bPtr v s)) = length (cells s)"
proof -
  show "take (bPtr + 1) (cells (store bPtr v s)) = take bPtr (cells s) @ [v]"
    using assms by (simp add: store_def take_Suc_conv_app_nth)
  show "drop (bPtr + 1 + k) (cells (store bPtr v s)) = drop (bPtr + 1 + k) (cells s)"
    by (simp add: store_def)
  show "f (a ! aPtr) # map f (take k (drop (aPtr + 1) a)) = map f (take (Suc k) (drop aPtr a))"
    using assms by (simp flip: Cons_nth_drop_Suc)
  have "[bPtr..<Suc (bPtr + k)] = bPtr # [Suc bPtr..<Suc (bPtr + k)]"
    by (rule upt_conv_Cons) simp
  then show "stores (store bPtr v s) @ [bPtr + 1..<bPtr + 1 + k] = stores s @ [bPtr..<bPtr + Suc k]"
    by (simp add: store_def del: upt_Suc)
  show "length (cells (store bPtr v s)) = length (cells s)" by (simp add: store_def)
qed

lemma generic_loop_unfold:
  "aPtr + (n - number) \<le> length a \<Longrightarrow> bPtr + (n - number) \<le> length (cells s) \<Longrightarrow>
   generic_loop lm a n number aPtr bPtr s =
     \<lparr>cells = take bPtr (cells s) @ map (log2f_non_ieee lm) (take (n - number) (drop aPtr a))
               @ drop (bPtr + (n - number)) (cells s),
      stores = stores s @ [bPtr..<bPtr + (n - number)]\<rparr>"
proof (induction "n - number" arbitrary: number aPtr bPtr s)
  case 0
  then show ?case by (subst generic_loop.simps) simp
next
  case (Suc k)
  then have lt: "number < n" and k: "k = n - (number + 1)" by auto
  have eq: "n - number = Suc k" using Suc.hyps by simp
  let ?v = "log2f_non_ieee lm (a ! aPtr)"
  let ?s = "store bPtr ?v s"
  have in_range: "aPtr < length a" "bPtr < length (cells s)" using Suc.prems eq by auto
  note st = scalar_step(1)[OF in_range, where v = ?v] scalar_step(2)[OF in_range, where v = ?v and k = k]
    scalar_step(3)[OF in_range, where f = "log2f_non_ieee lm" and k = k]
    scalar_step(4)[OF in_range, where v = ?v and k = k] scalar_step(5)[OF in_range, where v = ?v]
  have IH: "generic_loop lm a n (number + 1) (aPtr + 1) (bPtr + 1) ?s =
     \<lparr>cells = take (bPtr + 1) (cells ?s) @ map (log2f_non_ieee lm) (take k (drop (aPtr + 1) a))
               @ drop (bPtr + 1 + k) (cells ?s),
      stores = stores ?s @ [bPtr + 1..<bPtr + 1 + k]\<rparr>"
    using Suc.hyps(1)[OF k, of "aPtr + 1" "bPtr + 1" ?s] Suc.prems eq st(5) k by simp
  have step: "generic_loop lm a n number aPtr bPtr s
      = generic_loop lm a n (number + 1) (aPtr + 1) (bPtr + 1) ?s"
    using lt by (subst generic_loop.simps) simp
  show ?case
    unfolding eq step IH st(1,2,4)
    using st(3) by (simp add: add.assoc)
qed

lemma u_generic_loop_unfold:
  "aPtr + (n - number) \<le> length a \<Longrightarrow> bPtr + (n - number) \<le> length (cells s) \<Longrightarrow>
   u_generic_loop lm a n number aPtr bPtr s =
     \<lparr>cells = take bPtr (cells s) @ map (u_scalar lm) (take (n - number) (drop aPtr a))
               @ drop (bPtr + (n - number)) (cells s),
      stores = stores s @ [bPtr..<bPtr + (n - number)]\<rparr>"
proof (induction "n - number" arbitrary: number aPtr bPtr s)
  case 0
  then show ?case by (subst u_generic_loop.simps) simp
next
  case (Suc k)
  then have lt: "number < n" and k: "k = n - (number + 1)" by auto
  have eq: "n - number = Suc k" using Suc.hyps by simp
  let ?v = "u_scalar lm (a ! aPtr)"
  let ?s = "store bPtr ?v s"
  have in_range: "aPtr < length a" "bPtr < length (cells s)" using Suc.prems eq by auto
  note st = scalar_step(1)[OF in_range, where v = ?v] scalar_step(2)[OF in_range, where v = ?v and k = k]
    scalar_step(3)[OF in_range, where f = "u_scalar lm" and k = k]
    scalar_step(4)[OF in_range, where v = ?v and k = k] scalar_step(5)[OF in_range, where v = ?v]
  have IH: "u_generic_loop lm a n (number + 1) (aPtr + 1) (bPtr + 1) ?s =
     \<lparr>cells = take (bPtr + 1) (cells ?s) @ map (u_scalar lm) (take k (drop (aPtr + 1) a))
               @ drop (bPtr + 1 + k) (cells ?s),
      stores = stores ?s @ [bPtr + 1..<bPtr + 1 + k]\<rparr>"
    using Suc.hyps(1)[OF k, of "aPtr + 1" "bPtr + 1" ?s] Suc.prems eq st(5) k by simp
  have step: "u_generic_loop lm a n number aPtr bPtr s
      = u_generic_loop lm a n (number + 1) (aPtr + 1) (bPtr + 1) ?s"
    using lt by (subst u_generic_loop.simps) (simp add: u_scalar_def Let_def)
  show ?case
    unfolding eq step IH st(1,2,4)
    using st(3) by (simp add: add.assoc)
qed

lemma kernel_sweep:
  assumes body: "\<And>p s. body p p s = store_lanes p (map lane (take W (drop p a))) s"
    and tail: "\<And>p n s. p + n \<le> length a \<Longrightarrow> p + n \<le> length (cells s) \<Longrightarrow>
        tl_kernel a p p n s =
          \<lparr>cells = take p (cells s) @ map scalar (take n (drop p a)) @ drop (p + n) (cells s),
           stores = stores s @ [p..<p + n]\<rparr>"
    and len: "N \<le> length a" "N \<le> length b"
  shows "(case vec_loop W body (N div W) 0 0 0 (fresh b) of
           (aPtr, bPtr, s) \<Rightarrow> tl_kernel a aPtr bPtr (N - N div W * W) s) = sweep W lane scalar b a N"
proof -
  let ?q = "N div W * W"
  have q: "?q \<le> N" by (simp add: div_times_less_eq_dividend)
  let ?s = "\<lparr>cells = map lane (take ?q a) @ drop ?q b, stores = [0..<?q]\<rparr>"
  have v: "vec_loop W body (N div W) 0 0 0 (fresh b) = (?q, ?q, ?s)"
    using vec_loop_unfold[where body = body and f = lane and W = W and a = a and p = 0
        and points = "N div W" and number = 0 and s = "fresh b", OF body]
      q len by (simp add: fresh_def)
  have lq: "length (map lane (take ?q a)) = ?q" using le_trans[OF q len(1)] by simp
  have t: "tl_kernel a ?q ?q (N - ?q) ?s =
      \<lparr>cells = take ?q (cells ?s) @ map scalar (take (N - ?q) (drop ?q a)) @ drop (?q + (N - ?q)) (cells ?s),
       stores = stores ?s @ [?q..<?q + (N - ?q)]\<rparr>"
    using q len by (intro tail) auto
  have c1: "take ?q (cells ?s) = map lane (take ?q a)" using lq by simp
  have c2: "drop (?q + (N - ?q)) (cells ?s) = drop N b"
    using q lq by (simp add: drop_append)
  have c3: "stores ?s @ [?q..<?q + (N - ?q)] = [0..<N]"
    using q by (metis add_0 le_add_diff_inverse select_convs(2) upt_add_eq_append zero_le)
  have "(case vec_loop W body (N div W) 0 0 0 (fresh b) of
           (aPtr, bPtr, s) \<Rightarrow> tl_kernel a aPtr bPtr (N - N div W * W) s)
        = tl_kernel a ?q ?q (N - ?q) ?s"
    unfolding v by simp
  also have "\<dots> = sweep W lane scalar b a N"
    unfolding t c1 c2 c3 sweep_def ..
  finally show ?thesis .
qed

lemma a_sse4_1_sweep:
  "N \<le> length a \<Longrightarrow> N \<le> length b \<Longrightarrow>
   volk_32f_log2_32f_a_sse4_1 lm b a N = sweep 4 sse4_1_lane (log2f_non_ieee lm) b a N"
  unfolding volk_32f_log2_32f_a_sse4_1_def Let_def volk_32f_log2_32f_generic_def
  by (rule kernel_sweep[where tl_kernel = "\<lambda>a p q n s. generic_loop lm a n 0 p q s"])
     (simp_all add: a_sse4_1_body_lanes generic_loop_unfold)

lemma a_avx2_sweep:
  "N \<le> length a \<Longrightarrow> N \<le> length b \<Longrightarrow>
   volk_32f_log2_32f_a_avx2 lm b a N = sweep 8 avx2_lane (log2f_non_ieee lm) b a N"
  unfolding volk_32f_log2_32f_a_avx2_def Let_def volk_32f_log2_32f_generic_def
  by (rule kernel_sweep[where tl_kernel = "\<lambda>a p q n s. generic_loop lm a n 0 p q s"])
     (simp_all add: a_avx2_body_lanes generic_loop_unfold)

lemma a_avx2_fma_sweep:
  "N \<le> length a \<Longrightarrow> N \<le> length b \<Longrightarrow>
   volk_32f_log2_32f_a_avx2_fma lm b a N = sweep 8 avx2_fma_lane (log2f_non_ieee lm) b a N"
  unfolding volk_32f_log2_32f_a_avx2_fma_def Let_def volk_32f_log2_32f_generic_def
  by (rule kernel_sweep[where tl_kernel = "\<lambda>a p q n s. generic_loop lm a n 0 p q s"])
     (simp_all add: a_avx2_fma_body_lanes generic_loop_unfold)

lemma neon_sweep:
  "N \<le> length a \<Longrightarrow> N \<le> length b \<Longrightarrow>
   volk_32f_log2_32f_neon lm b a N = sweep 4 neon_lane (log2f_non_ieee lm) b a N"
  unfolding volk_32f_log2_32f_neon_def Let_def volk_32f_log2_32f_generic_def
  by (rule kernel_sweep[where tl_kernel = "\<lambda>a p q n s. generic_loop lm a n 0 p q s"])
     (simp_all add: neon_body_lanes generic_loop_unfold)

lemma u_sse4_1_sweep:
  "N \<le> length a \<Longrightarrow> N \<le> length b \<Longrightarrow>
   volk_32f_log2_32f_u_sse4_1 lm b a N = sweep 4 sse4_1_lane (u_scalar lm) b a N"
  unfolding volk_32f_log2_32f_u_sse4_1_def Let_def volk_32f_log2_32f_u_generic_def
  by (rule kernel_sweep[where tl_kernel = "\<lambda>a p q n s. u_generic_loop lm a n 0 p q s"])
     (simp_all add: u_sse4_1_body_lanes u_generic_loop_unfold)

lemma u_avx2_sweep:
  "N \<le> length a \<Longrightarrow> N \<le> length b \<Longrightarrow>
   volk_32f_log2_32f_u_avx2 lm b a N = sweep 8 avx2_lane (u_scalar lm) b a N"
  unfolding volk_32f_log2_32f_u_avx2_def Let_def volk_32f_log2_32f_u_generic_def
  by (rule kernel_sweep[where tl_kernel = "\<lambda>a p q n s. u_generic_loop lm a n 0 p q s"])
     (simp_all add: u_avx2_body_lanes u_generic_loop_unfold)

lemma u_avx2_fma_sweep:
  "N \<le> length a \<Longrightarrow> N \<le> length b \<Longrightarrow>
   volk_32f_log2_32f_u_avx2_fma lm b a N = sweep 8 avx2_fma_lane (u_scalar lm) b a N"
  unfolding volk_32f_log2_32f_u_avx2_fma_def Let_def volk_32f_log2_32f_u_generic_def
  by (rule kernel_sweep[where tl_kernel = "\<lambda>a p q n s. u_generic_loop lm a n 0 p q s"])
     (simp_all add: u_avx2_fma_body_lanes u_generic_loop_unfold)

lemmas kernel_sweeps = a_sse4_1_sweep a_avx2_sweep a_avx2_fma_sweep neon_sweep
  u_sse4_1_sweep u_avx2_sweep u_avx2_fma_sweep

lemma generic_cells:
  "n \<le> length a \<Longrightarrow> n \<le> length b \<Longrightarrow>
   cells (volk_32f_log2_32f_generic lm a 0 0 n (fresh b)) = map (log2f_non_ieee lm) (take n a) @ drop n b"
  by (simp add: volk_32f_log2_32f_generic_def generic_loop_unfold fresh_def)

lemma u_generic_cells:
  "n \<le> length a \<Longrightarrow> n \<le> length b \<Longrightarrow>
   cells (volk_32f_log2_32f_u_generic lm a 0 0 n (fresh b)) = map (u_scalar lm) (take n a) @ drop n b"
  by (simp add: volk_32f_log2_32f_u_generic_def u_generic_loop_unfold fresh_def)

lemma sweep_tail:
  assumes "N \<le> length a" "N \<le> length b"
  shows "drop (N div W * W) (cells (sweep W lane scalar b a N))
       = map scalar (take (N - N div W * W) (drop (N div W * W) a))
         @ drop (N - N div W * W) (drop (N div W * W) b)"
proof -
  have q: "N div W * W \<le> N" by (simp add: div_times_less_eq_dividend)
  then have "length (map lane (take (N div W * W) a)) = N div W * W"
    using le_trans[OF q assms(1)] by simp
  then show ?thesis using q by (simp add: sweep_def)
qed

text \<open>
  Claim C2. For every vector kernel of width \<open>W\<close> and every length \<open>N\<close>, the output
  elements from index \<open>N div W * W\<close> on are exactly what the scalar kernel leaves when it
  is run on the tail slices of the input and the output array. The kernels of the aligned
  half and the NEON kernel use \<^verbatim>\<open>volk_32f_log2_32f_generic\<close>, those of the unaligned half
  \<^verbatim>\<open>volk_32f_log2_32f_u_generic\<close>.
\<close>

theorem tail_is_scalar_kernel:
  assumes "N \<le> length a" "N \<le> length b"
  shows "drop (N div 8 * 8) (cells (volk_32f_log2_32f_a_avx2_fma lm b a N))
           = cells (volk_32f_log2_32f_generic lm (drop (N div 8 * 8) a) 0 0 (N - N div 8 * 8)
                      (fresh (drop (N div 8 * 8) b)))
     \<and> drop (N div 8 * 8) (cells (volk_32f_log2_32f_a_avx2 lm b a N))
           = cells (volk_32f_log2_32f_generic lm (drop (N div 8 * 8) a) 0 0 (N - N div 8 * 8)
                      (fresh (drop (N div 8 * 8) b)))
     \<and> drop (N div 4 * 4) (cells (volk_32f_log2_32f_a_sse4_1 lm b a N))
           = cells (volk_32f_log2_32f_generic lm (drop (N div 4 * 4) a) 0 0 (N - N div 4 * 4)
                      (fresh (drop (N div 4 * 4) b)))
     \<and> drop (N div 4 * 4) (cells (volk_32f_log2_32f_neon lm b a N))
           = cells (volk_32f_log2_32f_generic lm (drop (N div 4 * 4) a) 0 0 (N - N div 4 * 4)
                      (fresh (drop (N div 4 * 4) b)))
     \<and> drop (N div 4 * 4) (cells (volk_32f_log2_32f_u_sse4_1 lm b a N))
           = cells (volk_32f_log2_32f_u_generic lm (drop (N div 4 * 4) a) 0 0 (N - N div 4 * 4)
                      (fresh (drop (N div 4 * 4) b)))
     \<and> drop (N div 8 * 8) (cells (volk_32f_log2_32f_u_avx2_fma lm b a N))
           = cells (volk_32f_log2_32f_u_generic lm (drop (N div 8 * 8) a) 0 0 (N - N div 8 * 8)
                      (fresh (drop (N div 8 * 8) b)))
     \<and> drop (N div 8 * 8) (cells (volk_32f_log2_32f_u_avx2 lm b a N))
           = cells (volk_32f_log2_32f_u_generic lm (drop (N div 8 * 8) a) 0 0 (N - N div 8 * 8)
                      (fresh (drop (N div 8 * 8) b)))"
  using assms
  by (simp add: kernel_sweeps sweep_tail generic_cells u_generic_cells)

lemma groups_upt: "groups W n = [0..<n * W]"
proof (induction n)
  case 0
  show ?case by (simp add: groups_def)
next
  case (Suc n)
  have "[0..<n * W] @ [n * W..<n * W + W] = [0..<n * W + W]"
    by (metis add_0 upt_add_eq_append zero_le)
  with Suc show ?case by (simp add: groups_def add.commute)
qed

lemma vector_part_stores:
  assumes body: "\<And>p s. body p p s = store_lanes p (map lane (take W (drop p a))) s"
    and len: "N \<le> length a" "N \<le> length b"
  shows "stores (vector_part W body b N) = [0..<N div W * W]"
proof -
  have q: "N div W * W \<le> N" by (simp add: div_times_less_eq_dividend)
  show ?thesis
    unfolding vector_part_def
    using vec_loop_unfold[where body = body and f = lane and W = W and a = a and p = 0
        and points = "N div W" and number = 0 and s = "fresh b", OF body]
      q len by (simp add: fresh_def)
qed

lemma upt_div_split: "[0..<N div W * W] @ [N div W * W..<N] = [0..<N]"
  by (metis add_0 div_times_less_eq_dividend le_add_diff_inverse upt_add_eq_append zero_le)

lemma sweep_stores: "stores (sweep W lane scalar b a N) = [0..<N]"
  by (simp add: sweep_def)

text \<open>
  Claim C9. For every kernel of width \<open>W\<close> and every length \<open>N\<close> (zero and lengths not
  divisible by \<open>W\<close> included) the vector loop stores to the indices of \<open>N div W\<close> groups
  of \<open>W\<close>, the scalar kernel then to the indices from \<open>N div W * W\<close> up to \<open>N\<close>, and
  together every index below \<open>N\<close> is stored to exactly once, in increasing order.
\<close>

theorem every_index_stored_once:
  assumes "N \<le> length a" "N \<le> length b"
  shows "stores (vector_part 8 (a_avx2_fma_body a) b N) = groups 8 (N div 8)
     \<and> stores (volk_32f_log2_32f_a_avx2_fma lm b a N) = stores (vector_part 8 (a_avx2_fma_body a) b N) @ [N div 8 * 8..<N]
     \<and> stores (volk_32f_log2_32f_a_avx2_fma lm b a N) = [0..<N]
     \<and> stores (vector_part 8 (a_avx2_body a) b N) = groups 8 (N div 8)
     \<and> stores (volk_32f_log2_32f_a_avx2 lm b a N) = stores (vector_part 8 (a_avx2_body a) b N) @ [N div 8 * 8..<N]
     \<and> stores (volk_32f_log2_32f_a_avx2 lm b a N) = [0..<N]
     \<and> stores (vector_part 4 (a_sse4_1_body a) b N) = groups 4 (N div 4)
     \<and> stores (volk_32f_log2_32f_a_sse4_1 lm b a N) = stores (vector_part 4 (a_sse4_1_body a) b N) @ [N div 4 * 4..<N]
     \<and> stores (volk_32f_log2_32f_a_sse4_1 lm b a N) = [0..<N]
     \<and> stores (vector_part 4 (neon_body a) b N) = groups 4 (N div 4)
     \<and> stores (volk_32f_log2_32f_neon lm b a N) = stores (vector_part 4 (neon_body a) b N) @ [N div 4 * 4..<N]
     \<and> stores (volk_32f_log2_32f_neon lm b a N) = [0..<N]
     \<and> stores (vector_part 4 (u_sse4_1_body a) b N) = groups 4 (N div 4)
     \<and> stores (volk_32f_log2_32f_u_sse4_1 lm b a N) = stores (vector_part 4 (u_sse4_1_body a) b N) @ [N div 4 * 4..<N]
     \<and> stores (volk_32f_log2_32f_u_sse4_1 lm b a N) = [0..<N]
     \<and> stores (vector_part 8 (u_avx2_fma_body a) b N) = groups 8 (N div 8)
     \<and> stores (volk_32f_log2_32f_u_avx2_fma lm b a N) = stores (vector_part 8 (u_avx2_fma_body a) b N) @ [N div 8 * 8..<N]
     \<and> stores (volk_32f_log2_32f_u_avx2_fma lm b a N) = [0..<N]
     \<and> stores (vector_part 8 (u_avx2_body a) b N) = groups 8 (N div 8)
     \<and> stores (volk_32f_log2_32f_u_avx2 lm b a N) = stores (vector_part 8 (u_avx2_body a) b N) @ [N div 8 * 8..<N]
     \<and> stores (volk_32f_log2_32f_u_avx2 lm b a N) = [0..<N]"
  using assms
  by (simp add: kernel_sweeps groups_upt sweep_stores upt_div_split
      vector_part_stores[where body = "a_sse4_1_body a" and lane = sse4_1_lane and W = 4 and a = a, OF a_sse4_1_body_lanes]
      vector_part_stores[where body = "u_sse4_1_body a" and lane = sse4_1_lane and W = 4 and a = a, OF u_sse4_1_body_lanes]
      vector_part_stores[where body = "a_avx2_body a" and lane = avx2_lane and W = 8 and a = a, OF a_avx2_body_lanes]
      vector_part_stores[where body = "u_avx2_body a" and lane = avx2_lane and W = 8 and a = a, OF u_avx2_body_lanes]
      vector_part_stores[where body = "a_avx2_fma_body a" and lane = avx2_fma_lane and W = 8 and a = a, OF a_avx2_fma_body_lanes]
      vector_part_stores[where body = "u_avx2_fma_body a" and lane = avx2_fma_lane and W = 8 and a = a, OF u_avx2_fma_body_lanes]
      vector_part_stores[where body = "neon_body a" and lane = neon_lane and W = 4 and a = a, OF neon_body_lanes])

text \<open>
  The tail of a 7-element array under the two SSE4.1 kernels: three elements, from the
  scalar kernel of each.
\<close>

theorem tail_is_scalar_kernel_witness:
  "drop 4 (cells (volk_32f_log2_32f_a_sse4_1 log2f_trunc [0, 0, 0, 0, 0, 0, 0]
             [0x3F800000, 0x40000000, 0x40800000, 0x44800000, 0x3F000000, 0x7F800000, 0] 7))
     = cells (volk_32f_log2_32f_generic log2f_trunc [0x3F000000, 0x7F800000, 0] 0 0 3 (fresh [0, 0, 0]))
   \<and> drop 4 (cells (volk_32f_log2_32f_u_sse4_1 log2f_trunc [0, 0, 0, 0, 0, 0, 0]
             [0x3F800000, 0x40000000, 0x40800000, 0x44800000, 0x3F000000, 0x7F800000, 0] 7))
     = cells (volk_32f_log2_32f_u_generic log2f_trunc [0x3F000000, 0x7F800000, 0] 0 0 3 (fresh [0, 0, 0]))"
  using tail_is_scalar_kernel[of 7
      "[0x3F800000, 0x40000000, 0x40800000, 0x44800000, 0x3F000000, 0x7F800000, 0]"
      "[0, 0, 0, 0, 0, 0, 0]" log2f_trunc]
  by simp

text \<open>
  \<open>N = 7\<close>: with width 4 one group goes through the vector loop and three elements
  through the scalar kernel; with width 8 all seven are scalar.
\<close>

theorem every_index_stored_once_witness:
  "stores (vector_part 4 (a_sse4_1_body [0x3F800000, 0x40000000, 0x40800000, 0x44800000, 0x3F000000, 0x7F800000, 0])
             [0, 0, 0, 0, 0, 0, 0] 7) = [0, 1, 2, 3]
   \<and> stores (volk_32f_log2_32f_a_sse4_1 log2f_trunc [0, 0, 0, 0, 0, 0, 0]
             [0x3F800000, 0x40000000, 0x40800000, 0x44800000, 0x3F000000, 0x7F800000, 0] 7)
       = [0, 1, 2, 3] @ [4, 5, 6]
   \<and> stores (volk_32f_log2_32f_a_avx2 log2f_trunc [0, 0, 0, 0, 0, 0, 0]
             [0x3F800000, 0x40000000, 0x40800000, 0x44800000, 0x3F000000, 0x7F800000, 0] 7)
       = [] @ [0, 1, 2, 3, 4, 5, 6]"
  using every_index_stored_once[of 7
      "[0x3F800000, 0x40000000, 0x40800000, 0x44800000, 0x3F000000, 0x7F800000, 0]"
      "[0, 0, 0, 0, 0, 0, 0]" log2f_trunc]
  by (simp add: groups_def upt_rec)

section \<open>Bit fields, rounding and the standard model of floating-point arithmetic\<close>

lemma unat_and_mask_mod: "unat (x AND mask n :: 32 word) = unat x mod 2 ^ n"
proof -
  have "unat (x AND mask n) = unat (take_bit n x)" by (simp add: take_bit_eq_mask)
  also have "\<dots> = take_bit n (unat x)" by (rule unsigned_take_bit_eq)
  also have "\<dots> = unat x mod 2 ^ n" by (rule take_bit_eq_mod)
  finally show ?thesis .
qed

lemma mant_unat: "mant x = unat x mod 2 ^ 23"
proof -
  have "(0x7FFFFF :: 32 word) = mask 23" by (simp add: mask_eq_exp_minus_1)
  then show ?thesis unfolding mant_def by (simp only: unat_and_mask_mod)
qed

lemma expo_unat: "expo x = unat x div 2 ^ 23 mod 256"
proof -
  have "drop_bit 23 (x AND 0x7F800000) = drop_bit 23 x AND mask 8"
    by (simp add: mask_eq_exp_minus_1)
  then have "expo x = unat (drop_bit 23 x AND mask 8)" unfolding expo_def by (rule arg_cong)
  also have "\<dots> = unat (drop_bit 23 x) mod 2 ^ 8" by (rule unat_and_mask_mod)
  also have "unat (drop_bit 23 x) = drop_bit 23 (unat x)" by (rule unat_drop_bit_eq)
  also have "\<dots> = unat x div 2 ^ 23" by (rule drop_bit_eq_div)
  finally show ?thesis by simp
qed

lemma sign_unat: "sign_of x \<longleftrightarrow> 2 ^ 31 \<le> unat x"
proof -
  have "unat x < 2 ^ 32" using unsigned_less[of x] by simp
  then have "unat x div 2 ^ 31 < 2" by simp
  then have "odd (unat x div 2 ^ 31) \<longleftrightarrow> 2 ^ 31 \<le> unat x"
    by (cases "unat x < 2 ^ 31") (auto elim!: oddE)
  moreover have "bit x 31 \<longleftrightarrow> bit (unat x) 31" by (simp add: bit_unsigned_iff)
  moreover have "bit (unat x) 31 \<longleftrightarrow> odd (unat x div 2 ^ 31)"
    by (simp only: bit_iff_odd_drop_bit drop_bit_eq_div)
  ultimately show ?thesis unfolding sign_of_def by simp
qed

lemma split_fields:
  fixes u :: nat
  assumes "u < 2 ^ 32"
  shows "u = (if 2 ^ 31 \<le> u then 2 ^ 31 else 0) + (u div 2 ^ 23 mod 256) * 2 ^ 23 + u mod 2 ^ 23"
proof -
  define d where "d = u div 2 ^ 23"
  define r where "r = u mod 2 ^ 23"
  define h where "h = d div 256"
  define e where "e = d mod 256"
  have u: "u = d * 2 ^ 23 + r" unfolding d_def r_def by simp
  have d: "d = h * 256 + e" unfolding h_def e_def by simp
  have r: "r < 2 ^ 23" unfolding r_def by simp
  have e: "e < 256" unfolding e_def by simp
  have "d < 512" unfolding d_def using assms by simp
  then have h: "h < 2" unfolding h_def by simp
  have uu: "u = h * 2 ^ 31 + e * 2 ^ 23 + r" unfolding u d by simp
  have "(2 ^ 31 \<le> u) = (h = 1)"
  proof (cases "h = 0")
    case True
    then have "u = e * 2 ^ 23 + r" using uu by simp
    also have "\<dots> < 256 * 2 ^ 23" using e r by simp
    finally show ?thesis using True by simp
  next
    case False
    then have "h = 1" using h by simp
    then show ?thesis using uu by simp
  qed
  then have "(if 2 ^ 31 \<le> u then 2 ^ 31 else 0) = h * 2 ^ 31" using h by (cases "h = 0") auto
  then show ?thesis using uu unfolding d_def[symmetric] r_def[symmetric] e_def[symmetric] by simp
qed

lemma unat_fields: "unat x = (if sign_of x then 2 ^ 31 else 0) + expo x * 2 ^ 23 + mant x"
proof -
  have "unat x < 2 ^ 32" using unsigned_less[of x] by simp
  from split_fields[OF this] show ?thesis unfolding expo_unat mant_unat sign_unat .
qed

lemma expo_less: "expo x < 256"
  by (simp add: expo_unat)

lemma mant_less: "mant x < 2 ^ 23"
  by (simp add: mant_unat)

lemma float_eqI: "sign_of x = sign_of y \<Longrightarrow> expo x = expo y \<Longrightarrow> mant x = mant y \<Longrightarrow> x = y"
  by (rule word_unat_eq_iff[THEN iffD2]) (simp add: unat_fields)

lemma unat_sign_or:
  assumes "m < 2 ^ 31"
  shows "unat ((if s then 0x80000000 else 0) OR word_of_nat m :: 32 word) = (if s then 2 ^ 31 else 0) + m"
proof -
  let ?w = "word_of_nat m :: 32 word"
  have um: "unat ?w = m" using assms by (simp add: unat_of_nat)
  show ?thesis
  proof (cases s)
    case False
    then show ?thesis using um by simp
  next
    case True
    have nb: "\<not> bit ?w 31"
      using assms um sign_unat[of ?w] by (simp add: sign_of_def)
    have "(0x80000000 :: 32 word) = push_bit 31 1" by simp
    then have b: "bit (0x80000000 :: 32 word) n \<longleftrightarrow> n = 31" for n
      by (simp only: bit_push_bit_iff bit_1_iff) (auto simp: possible_bit_word)
    have "(0x80000000 :: 32 word) + ?w = 0x80000000 OR ?w"
      by (rule disjunctive_add) (use b nb in auto)
    moreover have "unat ((0x80000000 :: 32 word) + ?w) = 2 ^ 31 + m"
      using assms um by (simp add: unat_word_ariths)
    ultimately show ?thesis using True by simp
  qed
qed

lemma fields_sign_or:
  fixes s :: bool and m :: nat
  assumes "m < 2 ^ 31"
  defines "w \<equiv> (if s then 0x80000000 else 0) OR word_of_nat m :: 32 word"
  shows "sign_of w = s" "expo w = m div 2 ^ 23" "mant w = m mod 2 ^ 23"
proof -
  have u: "unat w = (if s then 2 ^ 31 else 0) + m"
    unfolding w_def by (rule unat_sign_or[OF assms(1)])
  have lt: "unat w < 2 ^ 32" using unsigned_less[of w] by simp
  show s: "sign_of w = s" using assms(1) by (simp add: sign_unat u)
  have d: "m div 2 ^ 23 < 256" using assms(1) by simp
  have "unat w = (if s then 2 ^ 31 else 0) + (m div 2 ^ 23) * 2 ^ 23 + m mod 2 ^ 23"
    unfolding u by simp
  moreover note unat_fields[of w]
  ultimately have eq: "expo w * 2 ^ 23 + mant w = (m div 2 ^ 23) * 2 ^ 23 + m mod 2 ^ 23"
    unfolding s by simp
  have "(expo w * 2 ^ 23 + mant w) div 2 ^ 23 = expo w"
    using mant_less[of w] by simp
  moreover have "((m div 2 ^ 23) * 2 ^ 23 + m mod 2 ^ 23) div 2 ^ 23 = m div 2 ^ 23"
    by simp
  ultimately show e: "expo w = m div 2 ^ 23" using eq by simp
  show "mant w = m mod 2 ^ 23" using eq unfolding e by (rule add_left_imp_eq)
qed

lemma rne_div_error:
  assumes "0 < D"
  shows "\<bar>real (rne_div N D) - real N / real D\<bar> \<le> 1 / 2"
proof -
  define q where "q = N div D"
  define r where "r = N mod D"
  have N: "N = q * D + r" unfolding q_def r_def by simp
  have r: "r < D" unfolding r_def using assms by simp
  have quot: "real N / real D = real q + real r / real D"
    using assms by (simp add: N field_simps)
  have r01: "0 \<le> real r / real D" "real r / real D < 1" using r assms by auto
  show ?thesis
  proof (cases "2 * r < D \<or> (2 * r = D \<and> even q)")
    case True
    then have "rne_div N D = q" by (simp add: rne_div_def Let_def q_def r_def)
    moreover from True have "2 * r \<le> D" by auto
    then have "real (2 * r) \<le> real D" by (rule of_nat_mono)
    then have "2 * real r \<le> real D" by simp
    then have "real r / real D \<le> 1 / 2" using assms by (simp add: field_simps)
    ultimately show ?thesis using quot r01 by simp
  next
    case False
    then have "rne_div N D = q + 1" by (simp add: rne_div_def Let_def q_def r_def)
    moreover from False have "D \<le> 2 * r" by auto
    then have "real D \<le> real (2 * r)" by (rule of_nat_mono)
    then have "real D \<le> 2 * real r" by simp
    then have "1 / 2 \<le> real r / real D" using assms by (simp add: field_simps)
    ultimately show ?thesis using quot r01 by simp
  qed
qed

lemma ilog2_bounds:
  assumes "0 < N" "0 < D"
  shows "2 powi (ilog2 N D) \<le> real N / real D" "real N / real D < 2 powi (ilog2 N D + 1)"
proof -
  have both: "2 powi (ilog2 N D) \<le> real N / real D \<and> real N / real D < 2 powi (ilog2 N D + 1)"
  proof (cases "D \<le> N")
    case True
    define M where "M = N div D"
    have M: "0 < M" unfolding M_def using True assms by (simp add: div_greater_zero_iff)
    define f where "f = floorlog 2 M"
    have fb: "2 ^ (f - 1) \<le> M" "M < 2 ^ f"
      using floorlog_bounds[of M 2] M unfolding f_def by auto
    have f: "0 < f" using M unfolding f_def by (simp add: floorlog_def)
    have e: "ilog2 N D = int (f - 1)" using True f unfolding ilog2_def f_def M_def by simp
    have "M * D \<le> N" unfolding M_def by simp
    then have lo: "2 ^ (f - 1) * D \<le> N" using fb(1) by (meson le_trans mult_le_mono1)
    have "N < (M + 1) * D" unfolding M_def using dividend_less_div_times[OF assms(2), of N] by simp
    moreover have "M + 1 \<le> 2 ^ f" using fb(2) by simp
    then have "(M + 1) * D \<le> 2 ^ f * D" by (rule mult_le_mono1)
    ultimately have hi: "N < 2 ^ f * D" by simp
    have "real (2 ^ (f - 1) * D) \<le> real N" using lo by (rule of_nat_mono)
    then have 1: "2 ^ (f - 1) \<le> real N / real D" using assms by (simp add: field_simps)
    have "real N < real (2 ^ f * D)" using hi by (simp only: of_nat_less_iff)
    then have 2: "real N / real D < 2 ^ f" using assms by (simp add: field_simps)
    have "int (f - 1) + 1 = int f" using f by simp
    then have p2: "2 powi (int (f - 1) + 1) = (2::real) ^ f" by (simp only: power_int_of_nat)
    have p1: "2 powi (int (f - 1)) = (2::real) ^ (f - 1)" by (rule power_int_of_nat)
    show ?thesis unfolding e p1 p2 using 1 2 by (intro conjI)
  next
    case False
    then have lt: "N < D" by simp
    define M where "M = (D - 1) div N"
    have M: "0 < M" unfolding M_def using lt assms by (simp add: div_greater_zero_iff)
    define c where "c = floorlog 2 M"
    have cb: "2 ^ (c - 1) \<le> M" "M < 2 ^ c"
      using floorlog_bounds[of M 2] M unfolding c_def by auto
    have c: "0 < c" using M unfolding c_def by (simp add: floorlog_def)
    have e: "ilog2 N D = - int c" using False unfolding ilog2_def c_def M_def by simp
    have "D - 1 < (M + 1) * N" unfolding M_def using dividend_less_div_times[OF assms(1), of "D - 1"] by simp
    moreover have "M + 1 \<le> 2 ^ c" using cb(2) by simp
    then have "(M + 1) * N \<le> 2 ^ c * N" by (rule mult_le_mono1)
    ultimately have hi: "D \<le> 2 ^ c * N" by simp
    have "M * N \<le> D - 1" unfolding M_def by simp
    then have "2 ^ (c - 1) * N \<le> D - 1" using cb(1) by (meson le_trans mult_le_mono1)
    then have lo: "2 ^ (c - 1) * N < D" using assms(2) by simp
    have "real D \<le> real (2 ^ c * N)" using hi by (rule of_nat_mono)
    then have 1: "inverse (2 ^ c) \<le> real N / real D" using assms by (simp add: field_simps)
    have "real (2 ^ (c - 1) * N) < real D" using lo by (simp only: of_nat_less_iff)
    then have 2: "real N / real D < inverse (2 ^ (c - 1))" using assms by (simp add: field_simps)
    have "- int c + 1 = - int (c - 1)" using c by simp
    then have p2: "2 powi (- int c + 1) = inverse ((2::real) ^ (c - 1))"
      by (simp only: power_int_minus power_int_of_nat)
    have p1: "2 powi (- int c) = inverse ((2::real) ^ c)"
      by (simp only: power_int_minus power_int_of_nat)
    show ?thesis unfolding e p1 p2 using 1 2 by (intro conjI)
  qed
  from both show "2 powi (ilog2 N D) \<le> real N / real D" "real N / real D < 2 powi (ilog2 N D + 1)" by auto
qed

lemma powi_nonneg: "0 \<le> q \<Longrightarrow> (2::real) powi q = 2 ^ nat q"
  by (simp add: power_int_def)

lemma powi_neg: "q < 0 \<Longrightarrow> (2::real) powi q = inverse (2 ^ nat (- q))"
  by (simp add: power_int_def power_divide inverse_eq_divide)

lemma round_to_spec:
  assumes "0 < N" "0 < D" "round_to p emin N D = (n, q)"
  shows "q = max (ilog2 N D) emin - (int p - 1)"
    and "\<bar>real n - real N / real D / 2 powi q\<bar> \<le> 1 / 2"
proof -
  show q: "q = max (ilog2 N D) emin - (int p - 1)"
    using assms(3) by (simp add: round_to_def Let_def)
  show "\<bar>real n - real N / real D / 2 powi q\<bar> \<le> 1 / 2"
  proof (cases "q < 0")
    case True
    then have n: "n = rne_div (N * 2 ^ nat (- q)) D"
      using assms(3) q by (auto simp: round_to_def Let_def)
    have eq: "real (N * 2 ^ nat (- q)) / real D = real N / real D / 2 powi q"
      using True by (simp add: powi_neg field_simps)
    show ?thesis using rne_div_error[OF assms(2), of "N * 2 ^ nat (- q)"] unfolding n eq .
  next
    case False
    then have n: "n = rne_div N (D * 2 ^ nat q)"
      using assms(3) q by (auto simp: round_to_def Let_def)
    have D: "0 < D * 2 ^ nat q" using assms(2) by simp
    have eq: "real N / real (D * 2 ^ nat q) = real N / real D / 2 powi q"
      using False by (simp add: powi_nonneg field_simps)
    show ?thesis using rne_div_error[OF D, of N] unfolding n eq .
  qed
qed

lemma round_to_bounds:
  assumes "0 < N" "0 < D" "round_to p emin N D = (n, q)" "0 < p"
  shows "n \<le> 2 ^ p" and "emin \<le> ilog2 N D \<Longrightarrow> 2 ^ (p - 1) \<le> n"
proof -
  define r where "r = real N / real D"
  define e where "e = ilog2 N D"
  note sp = round_to_spec[OF assms(1-3), folded r_def e_def]
  note ib = ilog2_bounds[OF assms(1,2), folded r_def e_def]
  have pos: "(0::real) < 2 powi q" by simp
  have "e + 1 - q \<le> int p" using sp(1) by simp
  then have "(2::real) powi (e + 1 - q) \<le> 2 powi (int p)" by (intro power_int_increasing) auto
  moreover have "r / 2 powi q < 2 powi (e + 1 - q)"
    using ib(2) pos by (simp add: power_int_diff field_simps)
  ultimately have "r / 2 powi q < 2 ^ p" by simp
  then have "real n < 2 ^ p + 1" using sp(2) by linarith
  then have "real n < real (2 ^ p + 1)" by simp
  then have "n < 2 ^ p + 1" by (simp only: of_nat_less_iff)
  then show "n \<le> 2 ^ p" by simp
  show "2 ^ (p - 1) \<le> n" if "emin \<le> ilog2 N D"
  proof -
    have q: "q = e - (int p - 1)" using sp(1) that unfolding e_def by simp
    have "(2::real) powi (int p - 1) = 2 powi (e - q)" using q by simp
    also have "\<dots> \<le> r / 2 powi q"
      using ib(1) pos by (simp add: power_int_diff field_simps)
    finally have "(2::real) powi (int p - 1) \<le> r / 2 powi q" .
    moreover have "(2::real) powi (int p - 1) = 2 ^ (p - 1)"
      using assms(4) by (simp add: power_int_def nat_diff_distrib')
    ultimately have "(2::real) ^ (p - 1) - 1 < real n" using sp(2) by linarith
    then have "real (2 ^ (p - 1)) < real (n + 1)" by simp
    then have "2 ^ (p - 1) < n + 1" by (simp only: of_nat_less_iff)
    then show ?thesis by simp
  qed
qed

lemma scaled_fields:
  "scaled x = (if sign_of x then - 1 else 1) *
     int ((if expo x = 0 then mant x else 2 ^ 23 + mant x) * 2 ^ (max (expo x) 1 - 1))"
  by (simp add: scaled_def Let_def)

lemma enc32_fields:
  assumes n: "n \<le> 2 ^ 24" and q: "- 149 \<le> q" "q \<le> 103" and nq: "2 ^ 23 \<le> n \<or> q = - 149"
  shows "sign_of (enc32 s (n, q)) = s"
    and "expo (enc32 s (n, q)) < 255"
    and "scaled (enc32 s (n, q)) = (if s then - 1 else 1) * int (n * 2 ^ nat (q + 149))"
proof -
  define k where "k = nat (q + 149)"
  have k: "k \<le> 252" using q unfolding k_def by simp
  define m where "m = k * 2 ^ 23 + n"
  have "m \<le> 252 * 2 ^ 23 + 2 ^ 24" unfolding m_def using k n by (intro add_mono mult_le_mono1)
  then have m: "m < 0x7F800000" by simp
  have "nat ((q + 149) * 2 ^ 23) = k * 2 ^ 23" using q unfolding k_def by (simp add: nat_mult_distrib)
  then have enc: "enc32 s (n, q) = (if s then 0x80000000 else 0) OR word_of_nat m"
    using m unfolding enc32_def m_def by simp
  have m31: "m < 2 ^ 31" using m by simp
  note f = fields_sign_or[OF m31, of s, folded enc]
  show "sign_of (enc32 s (n, q)) = s" by (rule f(1))
  have md: "m div 2 ^ 23 = k + n div 2 ^ 23" "m mod 2 ^ 23 = n mod 2 ^ 23"
    unfolding m_def by simp_all
  have nd: "n div 2 ^ 23 \<le> 2" using n by simp
  show "expo (enc32 s (n, q)) < 255" unfolding f(2) md using k nd by simp
  consider (sub) "n < 2 ^ 23" | (norm) "2 ^ 23 \<le> n" "n < 2 ^ 24" | (carry) "n = 2 ^ 24"
    using n by fastforce
  then have "(if expo (enc32 s (n, q)) = 0 then mant (enc32 s (n, q)) else 2 ^ 23 + mant (enc32 s (n, q)))
      * 2 ^ (max (expo (enc32 s (n, q))) 1 - 1) = n * 2 ^ k"
  proof cases
    case sub
    then have "q = - 149" using nq by simp
    then have "k = 0" unfolding k_def by simp
    then show ?thesis unfolding f(2,3) md using sub by simp
  next
    case norm
    then have "n div 2 ^ 23 = 1" by simp
    moreover have "n mod 2 ^ 23 = n - 2 ^ 23" using norm by (simp add: mod_if)
    ultimately show ?thesis unfolding f(2,3) md using norm by simp
  next
    case carry
    then show ?thesis unfolding f(2,3) md by simp
  qed
  then show "scaled (enc32 s (n, q)) = (if s then - 1 else 1) * int (n * 2 ^ nat (q + 149))"
    unfolding scaled_fields f(1) k_def by simp
qed

lemma ilog2_less:
  assumes "0 < N" "0 < D" "real N / real D < 2 powi k"
  shows "ilog2 N D < k"
proof (rule ccontr)
  assume "\<not> ilog2 N D < k"
  then have "(2::real) powi k \<le> 2 powi (ilog2 N D)" by (intro power_int_increasing) auto
  with ilog2_bounds(1)[OF assms(1,2)] assms(3) show False by linarith
qed

lemma round32_valof:
  assumes "0 < N" "0 < D" "real N / real D < 2 ^ 127"
  obtains n q where "q = max (ilog2 N D) (- 126) - 23"
    and "\<bar>real n - real N / real D / 2 powi q\<bar> \<le> 1 / 2"
    and "valof (round32 s N D) = (if s then - 1 else 1) * (real n * 2 powi q)"
    and "is_finite (round32 s N D)" and "sign_of (round32 s N D) = s"
    and "n \<le> 2 ^ 24" and "- 126 \<le> ilog2 N D \<Longrightarrow> 2 ^ 23 \<le> n"
proof -
  obtain n q where r: "round_to 24 (- 126) N D = (n, q)" by (cases "round_to 24 (- 126) N D")
  note sp = round_to_spec[OF assms(1,2) r]
  note bd = round_to_bounds[OF assms(1,2) r]
  have "real N / real D < 2 powi 127" using assms(3) by simp
  then have e: "ilog2 N D < 127" by (rule ilog2_less[OF assms(1,2)])
  have q: "- 149 \<le> q" "q \<le> 103" using sp(1) e by auto
  have nq: "2 ^ 23 \<le> n \<or> q = - 149"
  proof (cases "- 126 \<le> ilog2 N D")
    case True
    then show ?thesis using bd(2) by simp
  next
    case False
    then show ?thesis using sp(1) by simp
  qed
  have n24: "n \<le> 2 ^ 24" using bd(1) by simp
  note f = enc32_fields[OF n24 q nq, of s]
  have rd: "round32 s N D = enc32 s (n, q)" using assms(1) r by (simp add: round32_def)
  have "(2::real) powi q = 2 powi (q + 149) / 2 ^ 149"
    by (simp add: power_int_add)
  also have "(2::real) powi (q + 149) = 2 ^ nat (q + 149)" using q by (simp add: powi_nonneg)
  finally have pq: "(2::real) powi q = 2 ^ nat (q + 149) / 2 ^ 149" .
  have v: "valof (round32 s N D) = (if s then - 1 else 1) * (real n * 2 powi q)"
    unfolding valof_def rd f(3) pq by simp
  have q23: "q = max (ilog2 N D) (- 126) - 23" using sp(1) by simp
  show ?thesis
    by (rule that[OF q23 sp(2) v]) (use f bd in \<open>simp_all add: rd is_finite_def\<close>)
qed

lemma valof_zero [simp]: "valof plus_zero = 0" "valof minus_zero = 0"
  by (simp_all add: valof_def scaled_def plus_zero_def minus_zero_def expo_def mant_def sign_of_def Let_def)

lemma finite_zero [simp]: "is_finite plus_zero" "is_finite minus_zero"
  by (simp_all add: is_finite_def plus_zero_def minus_zero_def expo_def)

lemma finite_not_special: "is_finite x \<Longrightarrow> \<not> is_nan x \<and> \<not> is_inf x"
  by (simp add: is_finite_def is_nan_def is_inf_def)

text \<open>The standard model: a rounded result is within half a unit in the last place.\<close>

lemma round32_error:
  assumes "0 < N" "0 < D" "real N / real D < 2 ^ 127"
  shows "is_finite (round32 s N D)"
    and "\<bar>valof (round32 s N D) - (if s then - 1 else 1) * (real N / real D)\<bar>
           \<le> real N / real D / 2 ^ 24 + 1 / 2 ^ 150"
proof -
  define r where "r = real N / real D"
  have r: "0 < r" unfolding r_def using assms by simp
  obtain n q where q: "q = max (ilog2 N D) (- 126) - 23"
    and n: "\<bar>real n - r / 2 powi q\<bar> \<le> 1 / 2"
    and v: "valof (round32 s N D) = (if s then - 1 else 1) * (real n * 2 powi q)"
    and f: "is_finite (round32 s N D)"
    using round32_valof[OF assms, of s] unfolding r_def by metis
  show "is_finite (round32 s N D)" by (rule f)
  have pos: "(0::real) < 2 powi q" by simp
  have "\<bar>real n * 2 powi q - r\<bar> = \<bar>real n - r / 2 powi q\<bar> * 2 powi q"
    using pos by (simp add: abs_mult[symmetric] field_simps del: abs_mult)
  also have "\<dots> \<le> 1 / 2 * 2 powi q" using n pos by (intro mult_right_mono) auto
  also have "\<dots> = 2 powi (q - 1)" by (simp add: power_int_diff)
  finally have err: "\<bar>real n * 2 powi q - r\<bar> \<le> 2 powi (q - 1)" .
  have "(2::real) powi (q - 1) \<le> r / 2 ^ 24 + 1 / 2 ^ 150"
  proof (cases "- 126 \<le> ilog2 N D")
    case True
    then have "q - 1 = ilog2 N D - 24" using q by simp
    then have "(2::real) powi (q - 1) = 2 powi (ilog2 N D - 24)" by (simp only:)
    also have "\<dots> = 2 powi (ilog2 N D) / 2 ^ 24" by (simp add: power_int_diff)
    also have "\<dots> \<le> r / 2 ^ 24"
      using ilog2_bounds(1)[OF assms(1,2)] unfolding r_def by (simp add: divide_right_mono)
    finally show ?thesis by simp
  next
    case False
    then have "q - 1 = - 150" using q by simp
    then have "(2::real) powi (q - 1) = 1 / 2 ^ 150" by (simp add: power_int_minus field_simps)
    then show ?thesis using r by simp
  qed
  with err have "\<bar>real n * 2 powi q - r\<bar> \<le> r / 2 ^ 24 + 1 / 2 ^ 150" by linarith
  moreover have "\<bar>valof (round32 s N D) - (if s then - 1 else 1) * r\<bar> = \<bar>real n * 2 powi q - r\<bar>"
    unfolding v by (cases s) (simp_all add: abs_minus_commute)
  ultimately show "\<bar>valof (round32 s N D) - (if s then - 1 else 1) * (real N / real D)\<bar>
           \<le> real N / real D / 2 ^ 24 + 1 / 2 ^ 150"
    unfolding r_def by simp
qed

text \<open>A value that is a float already is not changed by rounding.\<close>

lemma round32_exact:
  assumes "0 < N" "0 < D" "real N / real D = real j * 2 powi t" "j < 2 ^ 24" "- 149 \<le> t" "t \<le> 102"
  shows "is_finite (round32 s N D)"
    and "valof (round32 s N D) = (if s then - 1 else 1) * (real N / real D)"
proof -
  define r where "r = real N / real D"
  have r: "0 < r" unfolding r_def using assms(1,2) by simp
  have rj: "r = real j * 2 powi t" unfolding r_def by (rule assms(3))
  have "real j < 2 ^ 24" using assms(4) by (metis of_nat_less_iff of_nat_numeral of_nat_power)
  then have r24: "r < 2 powi (24 + t)"
    unfolding rj by (simp add: power_int_add)
  also have "\<dots> \<le> 2 powi 127" using assms(6) by (intro power_int_increasing) auto
  finally have r127: "real N / real D < 2 ^ 127" unfolding r_def by simp
  obtain n q where q: "q = max (ilog2 N D) (- 126) - 23"
    and n: "\<bar>real n - r / 2 powi q\<bar> \<le> 1 / 2"
    and v: "valof (round32 s N D) = (if s then - 1 else 1) * (real n * 2 powi q)"
    and f: "is_finite (round32 s N D)"
    using round32_valof[OF assms(1,2) r127, of s] unfolding r_def by metis
  show "is_finite (round32 s N D)" by (rule f)
  have "ilog2 N D < 24 + t" using r24 unfolding r_def by (rule ilog2_less[OF assms(1,2)])
  then have qt: "q \<le> t" using q assms(5) by simp
  define d where "d = nat (t - q)"
  have "r / 2 powi q = real j * 2 powi (t - q)" unfolding rj by (simp add: power_int_diff)
  also have "(2::real) powi (t - q) = 2 ^ d" using qt unfolding d_def by (simp add: powi_nonneg)
  finally have "r / 2 powi q = real (j * 2 ^ d)" by simp
  with n have "\<bar>real n - real (j * 2 ^ d)\<bar> \<le> 1 / 2" by simp
  then have "\<bar>real_of_int (int n - int (j * 2 ^ d))\<bar> < 1" by simp
  then have "\<bar>int n - int (j * 2 ^ d)\<bar> < 1" by (simp only: of_int_abs[symmetric] of_int_less_1_iff)
  then have "int n = int (j * 2 ^ d)" by linarith
  then have "n = j * 2 ^ d" by (simp only: of_nat_eq_iff)
  then have "real n * 2 powi q = r / 2 powi q * 2 powi q"
    using \<open>r / 2 powi q = real (j * 2 ^ d)\<close> by simp
  then have "real n * 2 powi q = r" by simp
  then show "valof (round32 s N D) = (if s then - 1 else 1) * (real N / real D)"
    unfolding v r_def by simp
qed

lemma round_int_error:
  fixes r :: int and k :: nat
  assumes "r \<noteq> 0" "\<bar>real_of_int r / 2 ^ k\<bar> < 2 ^ 127"
  shows "is_finite (round32 (r < 0) (nat \<bar>r\<bar>) (2 ^ k))"
    and "\<bar>valof (round32 (r < 0) (nat \<bar>r\<bar>) (2 ^ k)) - real_of_int r / 2 ^ k\<bar>
           \<le> \<bar>real_of_int r / 2 ^ k\<bar> / 2 ^ 24 + 1 / 2 ^ 150"
proof -
  have N: "0 < nat \<bar>r\<bar>" using assms(1) by simp
  have D: "0 < (2::nat) ^ k" by simp
  have q: "real (nat \<bar>r\<bar>) / real (2 ^ k) = \<bar>real_of_int r / 2 ^ k\<bar>" by simp
  have sg: "(if r < 0 then - 1 else 1) * \<bar>real_of_int r / 2 ^ k\<bar> = real_of_int r / 2 ^ k"
    by simp
  have lt: "real (nat \<bar>r\<bar>) / real (2 ^ k) < 2 ^ 127" using assms(2) unfolding q .
  show "is_finite (round32 (r < 0) (nat \<bar>r\<bar>) (2 ^ k))" by (rule round32_error(1)[OF N D lt])
  show "\<bar>valof (round32 (r < 0) (nat \<bar>r\<bar>) (2 ^ k)) - real_of_int r / 2 ^ k\<bar>
           \<le> \<bar>real_of_int r / 2 ^ k\<bar> / 2 ^ 24 + 1 / 2 ^ 150"
    using round32_error(2)[OF N D lt, of "r < 0"] unfolding q sg .
qed

lemma round_int_exact:
  fixes r :: int and k :: nat
  assumes "r \<noteq> 0" "representable (real_of_int r / 2 ^ k)"
  shows "is_finite (round32 (r < 0) (nat \<bar>r\<bar>) (2 ^ k))"
    and "valof (round32 (r < 0) (nat \<bar>r\<bar>) (2 ^ k)) = real_of_int r / 2 ^ k"
proof -
  have N: "0 < nat \<bar>r\<bar>" using assms(1) by simp
  have D: "0 < (2::nat) ^ k" by simp
  have q: "real (nat \<bar>r\<bar>) / real (2 ^ k) = \<bar>real_of_int r / 2 ^ k\<bar>" by simp
  have sg: "(if r < 0 then - 1 else 1) * \<bar>real_of_int r / 2 ^ k\<bar> = real_of_int r / 2 ^ k"
    by simp
  obtain j t where jt: "\<bar>real_of_int r / 2 ^ k\<bar> = real j * 2 powi t" "j < 2 ^ 24" "- 149 \<le> t" "t \<le> 102"
    using assms(2) unfolding representable_def by blast
  note ex = round32_exact[OF N D jt(1)[folded q] jt(2-4), of "r < 0"]
  show "is_finite (round32 (r < 0) (nat \<bar>r\<bar>) (2 ^ k))" by (rule ex(1))
  show "valof (round32 (r < 0) (nat \<bar>r\<bar>) (2 ^ k)) = real_of_int r / 2 ^ k"
    using ex(2) unfolding q sg .
qed

lemma fadd_finite:
  assumes "is_finite a" "is_finite b" "\<bar>valof a + valof b\<bar> < 2 ^ 127"
  shows "is_finite (fadd a b)"
    and "\<bar>valof (fadd a b) - (valof a + valof b)\<bar> \<le> \<bar>valof a + valof b\<bar> / 2 ^ 24 + 1 / 2 ^ 150"
proof -
  define r where "r = scaled a + scaled b"
  have v: "valof a + valof b = real_of_int r / 2 ^ 149"
    unfolding r_def valof_def by (simp add: add_divide_distrib)
  have both: "is_finite (fadd a b) \<and>
     \<bar>valof (fadd a b) - (valof a + valof b)\<bar> \<le> \<bar>valof a + valof b\<bar> / 2 ^ 24 + 1 / 2 ^ 150"
  proof (cases "r = 0")
    case True
    then have "fadd a b = (if sign_of a \<and> sign_of b then minus_zero else plus_zero)"
      using finite_not_special[OF assms(1)] finite_not_special[OF assms(2)]
      by (simp add: fadd_def r_def)
    then show ?thesis using True v by simp
  next
    case False
    then have "fadd a b = round32 (r < 0) (nat \<bar>r\<bar>) (2 ^ 149)"
      using finite_not_special[OF assms(1)] finite_not_special[OF assms(2)]
      by (simp add: fadd_def r_def Let_def)
    then show ?thesis using round_int_error[OF False, of 149] assms(3) unfolding v by simp
  qed
  then show "is_finite (fadd a b)"
    and "\<bar>valof (fadd a b) - (valof a + valof b)\<bar> \<le> \<bar>valof a + valof b\<bar> / 2 ^ 24 + 1 / 2 ^ 150" by auto
qed

lemma fadd_exact:
  assumes "is_finite a" "is_finite b" "representable (valof a + valof b)"
  shows "is_finite (fadd a b)" and "valof (fadd a b) = valof a + valof b"
proof -
  define r where "r = scaled a + scaled b"
  have v: "valof a + valof b = real_of_int r / 2 ^ 149"
    unfolding r_def valof_def by (simp add: add_divide_distrib)
  have both: "is_finite (fadd a b) \<and> valof (fadd a b) = valof a + valof b"
  proof (cases "r = 0")
    case True
    then have "fadd a b = (if sign_of a \<and> sign_of b then minus_zero else plus_zero)"
      using finite_not_special[OF assms(1)] finite_not_special[OF assms(2)]
      by (simp add: fadd_def r_def)
    then show ?thesis using True v by simp
  next
    case False
    then have "fadd a b = round32 (r < 0) (nat \<bar>r\<bar>) (2 ^ 149)"
      using finite_not_special[OF assms(1)] finite_not_special[OF assms(2)]
      by (simp add: fadd_def r_def Let_def)
    then show ?thesis using round_int_exact[OF False, of 149] assms(3) unfolding v by simp
  qed
  then show "is_finite (fadd a b)" and "valof (fadd a b) = valof a + valof b" by auto
qed

section \<open>Values at special inputs\<close>

lemmas fp_eval = sign_of_def expo_def mant_def is_nan_def is_inf_def quiet_def scaled_def
  rne_div_def ilog2_def round_to_def enc32_def round32_def fadd_def fsub_def fmul_def fma_def
  cvt_s32_def float_lit_def double_lit_def compute_floorlog
  plus_zero_def minus_zero_def plus_inf_def minus_inf_def default_nan_def

lemma float_lits:
  "float_lit 1 0 = 0x3F800000"
  "float_lit 127 0 = 0x42FE0000"
  "float_lit (- 127) 0 = 0xC2FE0000"
  "float_lit 128 0 = 0x43000000"
  by (simp_all add: fp_eval cong: let_weak_cong)

lemma log2_coeffs_bits:
  "log2_coeffs = [0x4047691A, 0xC054BFAD, 0x4026537B, 0xBF9DA2C9, 0x3EA2ECDD, 0xBD0D0CC5]"
  by (simp add: log2_coeffs_def fp_eval cong: let_weak_cong)

lemma neon_coeffs_bits:
  "double_lit (- 30400402727048585) 16 = 0xC0429005"
  "double_lit 61129631282966113 16 = 0x40C39D65"
  "double_lit (- 53419892024633207) 16 = 0xC0AAF193"
  "double_lit 32865287703753912 16 = 0x4052567D"
  "double_lit (- 12669182593441635) 16 = 0xBFA22A61"
  "double_lit 2751487703421256 16 = 0x3E8CE04D"
  "double_lit (- 256910888150985) 16 = 0xBCD2761E"
  by (simp_all add: fp_eval cong: let_weak_cong)

text \<open>The polynomial at \<open>1.0\<close>, the significand of every input whose significand field is zero.\<close>

lemma poly_at_one:
  "horner 0x3F800000 log2_coeffs = 0x3FB8A9D8"
  "horner_fma 0x3F800000 log2_coeffs = 0x3FB8A9D8"
  by (simp_all add: log2_coeffs_bits fp_eval cong: let_weak_cong)

lemmas lane_eval = sse4_1_lane_def avx2_lane_def avx2_fma_lane_def lane_exponent_def lane_frac_def
  float_lits poly_at_one

lemma lanes_at_inf:
  "sse4_1_lane plus_inf = float_lit 128 0" "sse4_1_lane minus_inf = float_lit 128 0"
  "avx2_lane plus_inf = float_lit 128 0" "avx2_lane minus_inf = float_lit 128 0"
  "avx2_fma_lane plus_inf = float_lit 128 0" "avx2_fma_lane minus_inf = float_lit 128 0"
  by (simp_all add: lane_eval fp_eval cong: let_weak_cong)

lemma lanes_at_zero:
  "sse4_1_lane plus_zero = float_lit (- 127) 0"
  "avx2_lane plus_zero = float_lit (- 127) 0"
  "avx2_fma_lane plus_zero = float_lit (- 127) 0"
  by (simp_all add: lane_eval fp_eval cong: let_weak_cong)

lemma neon_lane_special:
  "neon_lane plus_zero = 0xC2FE0001"
  "neon_lane plus_inf = 0x42FFFFFF"
  "neon_lane minus_inf = 0x42FFFFFF"
  by (simp_all add: neon_lane_def neon_coeffs_bits fp_eval cong: let_weak_cong)

lemma log2f_special:
  "log2f lm plus_inf = plus_inf" "log2f lm minus_inf = default_nan"
  "log2f lm plus_zero = minus_inf" "log2f lm minus_zero = minus_inf"
  by (simp_all add: log2f_def fp_eval cong: let_weak_cong)

lemma scalar_special:
  "log2f_non_ieee lm plus_inf = float_lit 127 0"
  "log2f_non_ieee lm minus_inf = default_nan"
  "log2f_non_ieee lm plus_zero = float_lit (- 127) 0"
  "log2f_non_ieee lm minus_zero = float_lit (- 127) 0"
  "u_scalar lm plus_inf = float_lit (- 127) 0"
  "u_scalar lm minus_inf = default_nan"
  "u_scalar lm plus_zero = float_lit (- 127) 0"
  "u_scalar lm minus_zero = float_lit (- 127) 0"
  by (simp_all add: log2f_non_ieee_def u_scalar_def log2f_special isinf_def copysignf_def Let_def)
     (simp_all add: fp_eval cong: let_weak_cong)

text \<open>
  Claim C4, as amended. An infinite result is saturated: under the sign-preserving policy of
  \<^verbatim>\<open>log2f_non_ieee\<close> the input \<open>+\<infinity>\<close> gives \<open>127.0\<close> and a zero input (result \<open>-\<infinity>\<close>)
  gives \<open>-127.0\<close>; under the sign-collapsing policy of \<^verbatim>\<open>volk_32f_log2_32f_u_generic\<close> both
  give \<open>-127.0\<close>. The input \<open>-\<infinity>\<close> has no infinite result: its logarithm is a NaN, which
  both kernels store unchanged.
\<close>

theorem saturation_policies:
  "cells (volk_32f_log2_32f_generic lm [plus_inf] 0 0 1 (fresh [y])) = [float_lit 127 0]
   \<and> cells (volk_32f_log2_32f_generic lm [plus_zero] 0 0 1 (fresh [y])) = [float_lit (- 127) 0]
   \<and> cells (volk_32f_log2_32f_generic lm [minus_zero] 0 0 1 (fresh [y])) = [float_lit (- 127) 0]
   \<and> cells (volk_32f_log2_32f_generic lm [minus_inf] 0 0 1 (fresh [y])) = [default_nan]
   \<and> cells (volk_32f_log2_32f_u_generic lm [plus_inf] 0 0 1 (fresh [y])) = [float_lit (- 127) 0]
   \<and> cells (volk_32f_log2_32f_u_generic lm [plus_zero] 0 0 1 (fresh [y])) = [float_lit (- 127) 0]
   \<and> cells (volk_32f_log2_32f_u_generic lm [minus_zero] 0 0 1 (fresh [y])) = [float_lit (- 127) 0]
   \<and> cells (volk_32f_log2_32f_u_generic lm [minus_inf] 0 0 1 (fresh [y])) = [default_nan]"
  by (simp add: generic_cells u_generic_cells scalar_special)

text \<open>
  The claim as stated fails at the input \<open>-\<infinity>\<close>: neither scalar kernel stores \<open>-127.0\<close>
  for it.
\<close>

theorem minus_inf_not_saturated:
  "cells (volk_32f_log2_32f_generic log2f_trunc [minus_inf] 0 0 1 (fresh [plus_zero]))
     \<noteq> [float_lit (- 127) 0]
   \<and> cells (volk_32f_log2_32f_u_generic log2f_trunc [minus_inf] 0 0 1 (fresh [plus_zero]))
     \<noteq> [float_lit (- 127) 0]"
  by (simp add: generic_cells u_generic_cells scalar_special float_lits default_nan_def)

text \<open>
  Claim C5 fails on the code. One element \<open>+\<infinity>\<close>, which every kernel leaves to its scalar
  tail: the aligned kernel of each pair stores \<open>127.0\<close>, the unaligned one \<open>-127.0\<close>.
\<close>

theorem aligned_unaligned_differ_at_inf:
  "cells (volk_32f_log2_32f_a_sse4_1 lm [y] [plus_inf] 1) = [float_lit 127 0]
   \<and> cells (volk_32f_log2_32f_u_sse4_1 lm [y] [plus_inf] 1) = [float_lit (- 127) 0]
   \<and> cells (volk_32f_log2_32f_a_avx2 lm [y] [plus_inf] 1) = [float_lit 127 0]
   \<and> cells (volk_32f_log2_32f_u_avx2 lm [y] [plus_inf] 1) = [float_lit (- 127) 0]
   \<and> cells (volk_32f_log2_32f_a_avx2_fma lm [y] [plus_inf] 1) = [float_lit 127 0]
   \<and> cells (volk_32f_log2_32f_u_avx2_fma lm [y] [plus_inf] 1) = [float_lit (- 127) 0]
   \<and> float_lit 127 0 \<noteq> float_lit (- 127) 0"
  by (simp add: kernel_sweeps sweep_def scalar_special float_lits)

text \<open>
  Claim C3 fails on the code. In the vector-processed part an infinite input of either sign
  comes out as \<open>128.0\<close> from the SSE4.1, AVX2 and FMA lanes (and as the float just below
  \<open>128.0\<close> from the NEON lane), not as \<open>\<plusminus>127.0\<close>; only the scalar tail saturates, and only
  \<open>+\<infinity>\<close>.
\<close>

theorem inf_in_vector_part:
  "cells (volk_32f_log2_32f_a_sse4_1 lm [y, y, y, y, y] [plus_inf, minus_inf, plus_inf, minus_inf, plus_inf] 5)
     = [float_lit 128 0, float_lit 128 0, float_lit 128 0, float_lit 128 0, float_lit 127 0]
   \<and> cells (volk_32f_log2_32f_u_sse4_1 lm [y, y, y, y, y] [plus_inf, minus_inf, plus_inf, minus_inf, plus_inf] 5)
     = [float_lit 128 0, float_lit 128 0, float_lit 128 0, float_lit 128 0, float_lit (- 127) 0]
   \<and> cells (volk_32f_log2_32f_a_avx2 lm (replicate 8 y) (replicate 8 plus_inf) 8)
     = replicate 8 (float_lit 128 0)
   \<and> cells (volk_32f_log2_32f_u_avx2 lm (replicate 8 y) (replicate 8 minus_inf) 8)
     = replicate 8 (float_lit 128 0)
   \<and> cells (volk_32f_log2_32f_a_avx2_fma lm (replicate 8 y) (replicate 8 plus_inf) 8)
     = replicate 8 (float_lit 128 0)
   \<and> cells (volk_32f_log2_32f_u_avx2_fma lm (replicate 8 y) (replicate 8 minus_inf) 8)
     = replicate 8 (float_lit 128 0)
   \<and> cells (volk_32f_log2_32f_neon lm [y, y, y, y] [plus_inf, minus_inf, plus_inf, minus_inf] 4)
     = [0x42FFFFFF, 0x42FFFFFF, 0x42FFFFFF, 0x42FFFFFF]
   \<and> float_lit 128 0 \<noteq> float_lit 127 0 \<and> float_lit 128 0 \<noteq> float_lit (- 127) 0"
  by (simp add: kernel_sweeps sweep_def scalar_special lanes_at_inf neon_lane_special float_lits)

text \<open>
  Claim C10, as amended. For the input \<open>+0.0\<close> the SSE4.1, AVX2 and FMA lanes give exactly
  \<open>-127.0\<close>, the value both scalar kernels store for it. (The NEON lane, which adds its
  polynomial to the exponent term by term, gives the next float below \<open>-127.0\<close>.)
\<close>

theorem zero_gives_minus_127:
  "cells (volk_32f_log2_32f_a_sse4_1 lm (replicate 4 y) (replicate 4 plus_zero) 4)
     = replicate 4 (float_lit (- 127) 0)
   \<and> cells (volk_32f_log2_32f_u_sse4_1 lm (replicate 4 y) (replicate 4 plus_zero) 4)
     = replicate 4 (float_lit (- 127) 0)
   \<and> cells (volk_32f_log2_32f_a_avx2 lm (replicate 8 y) (replicate 8 plus_zero) 8)
     = replicate 8 (float_lit (- 127) 0)
   \<and> cells (volk_32f_log2_32f_u_avx2 lm (replicate 8 y) (replicate 8 plus_zero) 8)
     = replicate 8 (float_lit (- 127) 0)
   \<and> cells (volk_32f_log2_32f_a_avx2_fma lm (replicate 8 y) (replicate 8 plus_zero) 8)
     = replicate 8 (float_lit (- 127) 0)
   \<and> cells (volk_32f_log2_32f_u_avx2_fma lm (replicate 8 y) (replicate 8 plus_zero) 8)
     = replicate 8 (float_lit (- 127) 0)
   \<and> cells (volk_32f_log2_32f_generic lm [plus_zero] 0 0 1 (fresh [y])) = [float_lit (- 127) 0]
   \<and> cells (volk_32f_log2_32f_u_generic lm [plus_zero] 0 0 1 (fresh [y])) = [float_lit (- 127) 0]
   \<and> float_lit (- 127) 0 = 0xC2FE0000
   \<and> cells (volk_32f_log2_32f_neon lm (replicate 4 y) (replicate 4 plus_zero) 4)
     = replicate 4 0xC2FE0001"
  by (simp add: kernel_sweeps sweep_def generic_cells u_generic_cells scalar_special
      lanes_at_zero neon_lane_special float_lits)

text \<open>The claim as stated fails for the NEON kernel.\<close>

theorem neon_zero_not_minus_127:
  "cells (volk_32f_log2_32f_neon log2f_trunc [plus_zero, plus_zero, plus_zero, plus_zero]
            [plus_zero, plus_zero, plus_zero, plus_zero] 4)
     \<noteq> [float_lit (- 127) 0, float_lit (- 127) 0, float_lit (- 127) 0, float_lit (- 127) 0]"
  by (simp add: kernel_sweeps sweep_def neon_lane_special float_lits)

lemma round_nat_finite:
  assumes "real N < 2 ^ 127"
  shows "is_finite (round32 s N 1)"
proof (cases "N = 0")
  case True
  then show ?thesis by (simp add: round32_def)
next
  case False
  then have N: "0 < N" by simp
  show ?thesis using round32_error(1)[OF N, of 1 s] assms by simp
qed

lemma sint32_bound: "\<bar>sint (i :: 32 word)\<bar> \<le> 2 ^ 31"
  using sint_ge[of i] sint_lt[of i] by simp

lemma cvt_s32_finite: "is_finite (cvt_s32 i)"
proof -
  have "nat \<bar>sint i\<bar> \<le> 2 ^ 31" using sint32_bound[of i] by simp
  then have "real (nat \<bar>sint i\<bar>) \<le> real (2 ^ 31)" by (rule of_nat_mono)
  also have "\<dots> = 2 ^ 31" by simp
  also have "\<dots> < (2::real) ^ 127" by simp
  finally show ?thesis unfolding cvt_s32_def by (rule round_nat_finite)
qed

lemma cvt_s32_exact:
  assumes "\<bar>sint i\<bar> < 2 ^ 24"
  shows "valof (cvt_s32 i) = real_of_int (sint i)"
proof (cases "sint i = 0")
  case True
  then show ?thesis by (simp add: cvt_s32_def round32_def)
next
  case False
  define j where "j = nat \<bar>sint i\<bar>"
  have j: "j < 2 ^ 24" using assms unfolding j_def by simp
  have "\<bar>real_of_int (sint i) / 2 ^ 0\<bar> = real j * 2 powi 0" unfolding j_def by simp
  then have "representable (real_of_int (sint i) / 2 ^ 0)"
    unfolding representable_def using j by (intro exI[of _ j] exI[of _ 0]) simp
  from round_int_exact(2)[OF False this] show ?thesis by (simp add: cvt_s32_def)
qed

lemma inf_cases: "is_inf w \<Longrightarrow> w = plus_inf \<or> w = minus_inf"
proof -
  assume w: "is_inf w"
  have p: "sign_of plus_inf = False" "expo plus_inf = 255" "mant plus_inf = 0"
    and m: "sign_of minus_inf = True" "expo minus_inf = 255" "mant minus_inf = 0"
    by (simp_all add: plus_inf_def minus_inf_def sign_of_def expo_def mant_def)
  show ?thesis
  proof (cases "sign_of w")
    case True
    then have "w = minus_inf" using w m by (intro float_eqI) (simp_all add: is_inf_def)
    then show ?thesis ..
  next
    case False
    then have "w = plus_inf" using w p by (intro float_eqI) (simp_all add: is_inf_def)
    then show ?thesis ..
  qed
qed

lemma scaled_sign: "sign_of x \<Longrightarrow> scaled x \<le> 0"
  by (simp add: scaled_fields)

lemma scalar_policies_agree:
  assumes lm: "\<forall>x. is_finite x \<and> 0 < scaled x \<longrightarrow> lm x \<noteq> plus_inf"
    and x: "is_finite x" "0 \<le> scaled x"
  shows "log2f_non_ieee lm x = u_scalar lm x"
proof (cases "scaled x = 0")
  case True
  then have "log2f lm x = minus_inf"
    using finite_not_special[OF x(1)] by (simp add: log2f_def)
  then show ?thesis
    using scalar_special(3,7)[of lm]
    by (simp add: log2f_non_ieee_def u_scalar_def Let_def log2f_special)
next
  case False
  then have pos: "0 < scaled x" using x(2) by simp
  then have "\<not> sign_of x" using scaled_sign[of x] by auto
  then have l: "log2f lm x = lm x"
    using finite_not_special[OF x(1)] False by (simp add: log2f_def)
  show ?thesis
  proof (cases "is_inf (lm x)")
    case True
    then have "lm x = minus_inf" using inf_cases[of "lm x"] lm x(1) pos by auto
    then have "log2f lm x = log2f lm plus_zero" using l by (simp add: log2f_special)
    then show ?thesis
      using scalar_special(3,7)[of lm] by (simp add: log2f_non_ieee_def u_scalar_def)
  next
    case False
    then show ?thesis by (simp add: log2f_non_ieee_def u_scalar_def l isinf_def)
  qed
qed

text \<open>
  Claim C6. For the widths 4 and 8, every length \<open>N\<close> and every input of finite non-negative
  values, the aligned and the unaligned kernel of a pair leave the same buffer (and store
  in the same order), provided the platform's \<^verbatim>\<open>log2f\<close> returns no \<open>+\<infinity>\<close> for a finite
  positive operand. Alignment is a precondition on the addresses and not a value of this
  model: the aligned and the unaligned loads read the same lanes.
\<close>

theorem aligned_unaligned_agree:
  assumes "N \<le> length a" "N \<le> length b"
    and "\<forall>x \<in> set (take N a). is_finite x \<and> 0 \<le> scaled x"
    and "\<forall>x. is_finite x \<and> 0 < scaled x \<longrightarrow> lm x \<noteq> plus_inf"
  shows "volk_32f_log2_32f_a_sse4_1 lm b a N = volk_32f_log2_32f_u_sse4_1 lm b a N
       \<and> volk_32f_log2_32f_a_avx2 lm b a N = volk_32f_log2_32f_u_avx2 lm b a N
       \<and> volk_32f_log2_32f_a_avx2_fma lm b a N = volk_32f_log2_32f_u_avx2_fma lm b a N"
proof -
  have tail: "map (log2f_non_ieee lm) (take (N - q) (drop q a))
            = map (u_scalar lm) (take (N - q) (drop q a))" for q
  proof (rule map_cong[OF refl])
    fix x assume "x \<in> set (take (N - q) (drop q a))"
    then have "x \<in> set (take N a)"
      by (metis (no_types, lifting) drop_take in_set_dropD)
    with assms(3) have "is_finite x" "0 \<le> scaled x" by auto
    then show "log2f_non_ieee lm x = u_scalar lm x"
      by (rule scalar_policies_agree[OF assms(4)])
  qed
  show ?thesis using assms(1,2) by (simp add: kernel_sweeps sweep_def tail)
qed

theorem aligned_unaligned_agree_witness:
  "volk_32f_log2_32f_a_sse4_1 log2f_trunc [0, 0, 0, 0, 0, 0, 0]
       [0x3F800000, 0x40000000, 0x40400000, 0x44800000, 0x3F000000, 0x00000001, 0] 7
     = volk_32f_log2_32f_u_sse4_1 log2f_trunc [0, 0, 0, 0, 0, 0, 0]
       [0x3F800000, 0x40000000, 0x40400000, 0x44800000, 0x3F000000, 0x00000001, 0] 7
   \<and> volk_32f_log2_32f_a_avx2 log2f_trunc [0, 0, 0, 0, 0, 0, 0]
       [0x3F800000, 0x40000000, 0x40400000, 0x44800000, 0x3F000000, 0x00000001, 0] 7
     = volk_32f_log2_32f_u_avx2 log2f_trunc [0, 0, 0, 0, 0, 0, 0]
       [0x3F800000, 0x40000000, 0x40400000, 0x44800000, 0x3F000000, 0x00000001, 0] 7
   \<and> volk_32f_log2_32f_a_avx2_fma log2f_trunc [0, 0, 0, 0, 0, 0, 0]
       [0x3F800000, 0x40000000, 0x40400000, 0x44800000, 0x3F000000, 0x00000001, 0] 7
     = volk_32f_log2_32f_u_avx2_fma log2f_trunc [0, 0, 0, 0, 0, 0, 0]
       [0x3F800000, 0x40000000, 0x40400000, 0x44800000, 0x3F000000, 0x00000001, 0] 7"
proof -
  have lm: "\<forall>x. is_finite x \<and> 0 < scaled x \<longrightarrow> log2f_trunc x \<noteq> plus_inf"
  proof -
    have "\<not> is_finite plus_inf" by (simp add: is_finite_def plus_inf_def expo_def)
    then show ?thesis by (metis cvt_s32_finite log2f_trunc_def)
  qed
  have inp: "\<forall>x \<in> set (take 7 [0x3F800000, 0x40000000, 0x40400000, 0x44800000, 0x3F000000, 0x00000001, 0 :: float32]).
      is_finite x \<and> 0 \<le> scaled x"
    by (simp add: is_finite_def fp_eval cong: let_weak_cong)
  show ?thesis
    by (rule aligned_unaligned_agree[OF _ _ inp lm]) simp_all
qed

section \<open>The lanes without fused multiply-add and the formula of the specification\<close>

lemma inf_eq: "is_inf a \<Longrightarrow> is_inf b \<Longrightarrow> sign_of a = sign_of b \<Longrightarrow> a = b"
  by (rule float_eqI) (simp_all add: is_inf_def)

lemma fadd_commute: "\<not> (is_nan a \<and> is_nan b) \<Longrightarrow> fadd a b = fadd b a"
  unfolding fadd_def Let_def
  by (auto simp: add.commute dest: inf_eq)

lemma fmul_commute: "\<not> (is_nan a \<and> is_nan b) \<Longrightarrow> fmul a b = fmul b a"
  unfolding fmul_def
  by (auto simp: mult.commute)

lemma word_mant: "(word_of_nat (mant x) :: 32 word) = x AND 0x7FFFFF"
  by (simp add: mant_def)

lemma word_expo: "(word_of_nat (expo x) :: 32 word) = drop_bit 23 (x AND 0x7F800000)"
  by (simp add: expo_def)

lemma one_or_mant:
  "(0x3F800000 :: 32 word) OR (x AND 0x7FFFFF) = (if False then 0x80000000 else 0) OR word_of_nat (127 * 2 ^ 23 + mant x)"
proof -
  have a: "(0x3F800000 :: 32 word) = push_bit 23 127" by simp
  have b: "(0x7FFFFF :: 32 word) = mask 23" by (simp add: mask_eq_exp_minus_1)
  have "push_bit 23 (127 :: 32 word) + (x AND mask 23) = push_bit 23 127 OR (x AND mask 23)"
  proof (rule disjunctive_add)
    fix n
    show "\<not> bit (push_bit 23 (127 :: 32 word)) n \<or> \<not> bit (x AND mask 23) n"
      unfolding bit_push_bit_iff bit_and_iff bit_mask_iff by auto
  qed
  then have "(0x3F800000 :: 32 word) + (x AND 0x7FFFFF) = 0x3F800000 OR (x AND 0x7FFFFF)"
    unfolding a[symmetric] b[symmetric] .
  moreover have "(word_of_nat (127 * 2 ^ 23 + mant x) :: 32 word) = 0x3F800000 + (x AND 0x7FFFFF)"
    by (simp add: word_mant)
  ultimately show ?thesis by simp
qed

lemma lane_frac_fields:
  "sign_of (lane_frac x) = False" "expo (lane_frac x) = 127" "mant (lane_frac x) = mant x"
proof -
  have one: "float_lit 1 0 = 0x3F800000" by (rule float_lits)
  have m: "127 * 2 ^ 23 + mant x < 2 ^ 31" using mant_less[of x] by simp
  note f = fields_sign_or[OF m, of False, folded one_or_mant, folded one, folded lane_frac_def]
  show "sign_of (lane_frac x) = False" by (rule f(1))
  have "(127 * 2 ^ 23 + mant x) div 2 ^ 23 = 127 + mant x div 2 ^ 23"
    by (rule div_mult_self3) simp
  then show "expo (lane_frac x) = 127" unfolding f(2) using mant_less[of x] by simp
  have "(127 * 2 ^ 23 + mant x) mod 2 ^ 23 = mant x mod 2 ^ 23"
    by (rule mod_mult_self3)
  then show "mant (lane_frac x) = mant x" unfolding f(3) using mant_less[of x] by simp
qed

lemma lane_frac_valof: "valof (lane_frac x) = 1 + real (mant x) / 2 ^ 23"
  by (simp add: valof_def scaled_fields lane_frac_fields field_simps)

lemma lane_frac_range: "1 \<le> valof (lane_frac x)" "valof (lane_frac x) < 2"
  using mant_less[of x] by (simp_all add: lane_frac_valof)

lemma lane_frac_not_nan: "\<not> is_nan (lane_frac x)"
  by (simp add: is_nan_def lane_frac_fields)

lemma coeffs_not_nan:
  "\<not> is_nan (float_lit 31157899 7)" "\<not> is_nan (float_lit (- 33241990) 7)"
  "\<not> is_nan (float_lit 25988452 7)" "\<not> is_nan (float_lit (- 12315303) 7)"
  "\<not> is_nan (float_lit 31821337 8)" "\<not> is_nan (float_lit (- 34436006) 9)"
  using log2_coeffs_bits by (simp_all add: log2_coeffs_def is_nan_def expo_def)

lemma horner_is_spec_poly: "\<not> is_nan m \<Longrightarrow> horner m log2_coeffs = spec_poly m"
  unfolding log2_coeffs_def spec_poly_def
  by (simp add: fadd_commute fmul_commute coeffs_not_nan)

lemma spec_significand_eq: "spec_significand x = lane_frac x"
  by (simp add: spec_significand_def lane_frac_def word_mant)

lemma spec_exponent_eq: "spec_exponent x = lane_exponent x"
  by (simp add: spec_exponent_def lane_exponent_def word_expo)

lemma cvt_s32_not_nan: "\<not> is_nan (cvt_s32 i)"
  using finite_not_special[OF cvt_s32_finite] by simp

lemma sse4_1_lane_spec: "sse4_1_lane x = spec_lane x"
  by (simp add: sse4_1_lane_def spec_lane_def spec_significand_eq spec_exponent_eq
      horner_is_spec_poly lane_frac_not_nan)

lemma avx2_lane_spec: "avx2_lane x = spec_lane x"
  unfolding avx2_lane_def spec_lane_def spec_significand_eq spec_exponent_eq
    horner_is_spec_poly[OF lane_frac_not_nan] lane_exponent_def
  by (rule fadd_commute) (simp add: cvt_s32_not_nan)

lemma sint_expo_unbias:
  "sint (word_of_nat (expo x) - 127 :: 32 word) = int (expo x) - 127"
proof -
  have e: "int (expo x) < 256" using expo_less[of x] by simp
  have w: "(word_of_nat (expo x) - 127 :: 32 word) = word_of_int (int (expo x) - 127)" by simp
  have s: "sint (word_of_int k :: 32 word) = signed_take_bit 31 k" for k
    by (simp add: signed_of_int)
  have "signed_take_bit 31 (int (expo x) - 127) = int (expo x) - 127"
    using e by (intro signed_take_bit_int_eq_self) auto
  then show ?thesis unfolding w s .
qed

lemma spec_exponent_valof: "valof (spec_exponent x) = real_of_int (int (expo x) - 127)"
proof -
  have "\<bar>sint (word_of_nat (expo x) - 127 :: 32 word)\<bar> < 2 ^ 24"
    unfolding sint_expo_unbias using expo_less[of x] by simp
  from cvt_s32_exact[OF this] show ?thesis unfolding spec_exponent_def sint_expo_unbias .
qed

lemma normal_decomposition:
  assumes "is_normal x"
  shows "\<bar>valof x\<bar> = 2 powi (int (expo x) - 127) * valof (spec_significand x)"
proof -
  define e where "e = expo x"
  have e: "0 < e" using assms unfolding e_def is_normal_def by simp
  have "\<bar>valof x\<bar> = real (2 ^ 23 + mant x) * 2 ^ (e - 1) / 2 ^ 149"
    using e unfolding valof_def scaled_fields e_def[symmetric] by (simp add: abs_mult)
  also have "(2::real) ^ (e - 1) = 2 powi (int e - 1)"
    using e by (simp add: power_int_def nat_diff_distrib')
  also have "real (2 ^ 23 + mant x) * 2 powi (int e - 1) / 2 ^ 149
      = 2 powi (int e - 127) * (1 + real (mant x) / 2 ^ 23)"
    by (simp add: power_int_diff field_simps)
  finally show ?thesis unfolding spec_significand_eq lane_frac_valof e_def .
qed

lemma sweep_head:
  assumes "N \<le> length a"
  shows "take (N div W * W) (cells (sweep W lane scalar b a N)) = map lane (take (N div W * W) a)"
proof -
  have q: "N div W * W \<le> N" by (simp add: div_times_less_eq_dividend)
  then have "length (map lane (take (N div W * W) a)) = N div W * W"
    using le_trans[OF q assms] by simp
  then show ?thesis by (simp add: sweep_def)
qed

text \<open>
  Claim C7, as amended. In the vector-processed part of the SSE4.1 and AVX2 kernels without
  fused multiply-add every output element is \<open>E \<oplus> (P(m) \<otimes> (m \<ominus> 1))\<close> in single-precision
  arithmetic with \<open>P\<close> evaluated by Horner's scheme \<open>c0 \<oplus> m \<otimes> (c1 \<oplus> m \<otimes> (\<dots>))\<close> on the six
  coefficients of the claim. For a normal \<open>x\<close>, \<open>E\<close> is the biased exponent minus 127 as a
  float, \<open>m\<close> lies in \<open>[1, 2)\<close>, and \<open>|x| = 2\<^sup>E m\<close>. The NEON kernel, whose lanes are not
  fused either, stores \<open>neon_lane\<close> instead: the sum of \<open>E\<close>, \<open>p0\<close>, \<open>p1 m\<close>, \<dots>, \<open>p6 m\<^sup>6\<close> with
  seven coefficients of its own, added one after the other.
\<close>

theorem lane_is_spec_formula:
  assumes "N \<le> length a" "N \<le> length b"
  shows "take (N div 4 * 4) (cells (volk_32f_log2_32f_a_sse4_1 lm b a N))
           = map spec_lane (take (N div 4 * 4) a)
       \<and> take (N div 4 * 4) (cells (volk_32f_log2_32f_u_sse4_1 lm b a N))
           = map spec_lane (take (N div 4 * 4) a)
       \<and> take (N div 8 * 8) (cells (volk_32f_log2_32f_a_avx2 lm b a N))
           = map spec_lane (take (N div 8 * 8) a)
       \<and> take (N div 8 * 8) (cells (volk_32f_log2_32f_u_avx2 lm b a N))
           = map spec_lane (take (N div 8 * 8) a)
       \<and> take (N div 4 * 4) (cells (volk_32f_log2_32f_neon lm b a N))
           = map neon_lane (take (N div 4 * 4) a)
       \<and> (\<forall>x. is_normal x \<longrightarrow>
             valof (spec_exponent x) = real_of_int (int (expo x) - 127)
           \<and> 1 \<le> valof (spec_significand x) \<and> valof (spec_significand x) < 2
           \<and> \<bar>valof x\<bar> = 2 powi (int (expo x) - 127) * valof (spec_significand x))"
proof -
  have "sse4_1_lane = spec_lane" "avx2_lane = spec_lane"
    by (rule ext, rule sse4_1_lane_spec) (rule ext, rule avx2_lane_spec)
  then show ?thesis
    using assms
    by (simp add: kernel_sweeps sweep_head spec_exponent_valof normal_decomposition
        spec_significand_eq lane_frac_range)
qed

theorem lane_is_spec_formula_witness:
  "take 4 (cells (volk_32f_log2_32f_a_sse4_1 log2f_trunc [0, 0, 0, 0, 0]
             [0x3F800000, 0x40000000, 0x40400000, 0x44800000, 0x3F000000] 5))
     = [spec_lane 0x3F800000, spec_lane 0x40000000, spec_lane 0x40400000, spec_lane 0x44800000]
   \<and> is_normal 0x40400000
   \<and> valof (spec_exponent 0x40400000) = 1
   \<and> \<bar>valof 0x40400000\<bar> = 2 * valof (spec_significand 0x40400000)
   \<and> spec_lane 0x40400000 = 0x3FCAE038"
proof -
  have n: "is_normal 0x40400000" "expo 0x40400000 = 128"
    by (simp_all add: is_normal_def expo_def)
  have v: "spec_lane 0x40400000 = 0x3FCAE038"
    unfolding sse4_1_lane_spec[symmetric]
    by (simp add: sse4_1_lane_def lane_exponent_def lane_frac_def float_lits log2_coeffs_bits
        fp_eval cong: let_weak_cong)
  show ?thesis
    using lane_is_spec_formula[of 5 "[0x3F800000, 0x40000000, 0x40400000, 0x44800000, 0x3F000000]"
        "[0, 0, 0, 0, 0]" log2f_trunc] n v
    by simp
qed

lemma neon_lane_samples:
  "neon_lane 0x3F800000 = 0x360E4000"
  "neon_lane 0x40000000 = 0x3F800010"
  "neon_lane 0x40400000 = 0x3FCAE018"
  "neon_lane 0x3FC00000 = 0x3F15C030"
  by (simp_all add: neon_lane_def neon_coeffs_bits fp_eval cong: let_weak_cong)

lemma spec_lane_samples:
  "spec_lane 0x3F800000 = 0"
  "spec_lane 0x40000000 = 0x3F800000"
  "spec_lane 0x40400000 = 0x3FCAE038"
  "spec_lane 0x3FC00000 = 0x3F15C070"
  unfolding sse4_1_lane_spec[symmetric]
  by (simp_all add: lane_eval log2_coeffs_bits fp_eval cong: let_weak_cong)

text \<open>
  The claim as stated fails for the NEON kernel, whose lanes are not fused either: it adds
  \<open>p0\<close>, \<open>p1 m\<close>, \<dots>, \<open>p6 m\<^sup>6\<close> to \<open>E\<close> one after the other, with seven coefficients of its
  own, and stores other values than \<open>E + P(m) (m - 1)\<close> for the normal inputs \<open>1.0\<close>, \<open>2.0\<close>,
  \<open>3.0\<close> and \<open>1.5\<close>.
\<close>

theorem neon_lane_not_spec_formula:
  "take 4 (cells (volk_32f_log2_32f_neon log2f_trunc [0, 0, 0, 0]
             [0x3F800000, 0x40000000, 0x40400000, 0x3FC00000] 4))
     = [0x360E4000, 0x3F800010, 0x3FCAE018, 0x3F15C030]
   \<and> map spec_lane (take 4 [0x3F800000, 0x40000000, 0x40400000, 0x3FC00000])
     = [0, 0x3F800000, 0x3FCAE038, 0x3F15C070]
   \<and> is_normal 0x3F800000 \<and> is_normal 0x40000000 \<and> is_normal 0x40400000 \<and> is_normal 0x3FC00000
   \<and> take 4 (cells (volk_32f_log2_32f_neon log2f_trunc [0, 0, 0, 0]
             [0x3F800000, 0x40000000, 0x40400000, 0x3FC00000] 4))
     \<noteq> map spec_lane (take 4 [0x3F800000, 0x40000000, 0x40400000, 0x3FC00000])"
  by (simp add: kernel_sweeps sweep_def neon_lane_samples spec_lane_samples is_normal_def expo_def)

section \<open>The standard model for the other operations\<close>

lemma fsub_finite:
  assumes "is_finite a" "is_finite b" "\<bar>valof a - valof b\<bar> < 2 ^ 127"
  shows "is_finite (fsub a b)"
    and "\<bar>valof (fsub a b) - (valof a - valof b)\<bar> \<le> \<bar>valof a - valof b\<bar> / 2 ^ 24 + 1 / 2 ^ 150"
proof -
  define r where "r = scaled a - scaled b"
  have v: "valof a - valof b = real_of_int r / 2 ^ 149"
    unfolding r_def valof_def by (simp add: diff_divide_distrib)
  have both: "is_finite (fsub a b) \<and>
     \<bar>valof (fsub a b) - (valof a - valof b)\<bar> \<le> \<bar>valof a - valof b\<bar> / 2 ^ 24 + 1 / 2 ^ 150"
  proof (cases "r = 0")
    case True
    then have "fsub a b = (if sign_of a \<and> \<not> sign_of b then minus_zero else plus_zero)"
      using finite_not_special[OF assms(1)] finite_not_special[OF assms(2)]
      by (simp add: fsub_def r_def)
    then show ?thesis using True v by simp
  next
    case False
    then have "fsub a b = round32 (r < 0) (nat \<bar>r\<bar>) (2 ^ 149)"
      using finite_not_special[OF assms(1)] finite_not_special[OF assms(2)]
      by (simp add: fsub_def r_def Let_def)
    then show ?thesis using round_int_error[OF False, of 149] assms(3) unfolding v by simp
  qed
  then show "is_finite (fsub a b)"
    and "\<bar>valof (fsub a b) - (valof a - valof b)\<bar> \<le> \<bar>valof a - valof b\<bar> / 2 ^ 24 + 1 / 2 ^ 150" by auto
qed

lemma fsub_exact:
  assumes "is_finite a" "is_finite b" "representable (valof a - valof b)"
  shows "is_finite (fsub a b)" and "valof (fsub a b) = valof a - valof b"
proof -
  define r where "r = scaled a - scaled b"
  have v: "valof a - valof b = real_of_int r / 2 ^ 149"
    unfolding r_def valof_def by (simp add: diff_divide_distrib)
  have both: "is_finite (fsub a b) \<and> valof (fsub a b) = valof a - valof b"
  proof (cases "r = 0")
    case True
    then have "fsub a b = (if sign_of a \<and> \<not> sign_of b then minus_zero else plus_zero)"
      using finite_not_special[OF assms(1)] finite_not_special[OF assms(2)]
      by (simp add: fsub_def r_def)
    then show ?thesis using True v by simp
  next
    case False
    then have "fsub a b = round32 (r < 0) (nat \<bar>r\<bar>) (2 ^ 149)"
      using finite_not_special[OF assms(1)] finite_not_special[OF assms(2)]
      by (simp add: fsub_def r_def Let_def)
    then show ?thesis using round_int_exact[OF False, of 149] assms(3) unfolding v by simp
  qed
  then show "is_finite (fsub a b)" and "valof (fsub a b) = valof a - valof b" by auto
qed

lemma finite_scaled_zero: "is_finite a \<Longrightarrow> \<not> (is_inf a \<and> P)"
  by (simp add: finite_not_special)

lemma sign_xor_neg:
  fixes p :: int
  assumes "p \<noteq> 0" "p = scaled a * scaled b"
  shows "(sign_of a \<noteq> sign_of b) = (p < 0)"
proof -
  have a: "scaled a \<noteq> 0" and b: "scaled b \<noteq> 0" using assms by auto
  have s: "sign_of x \<longleftrightarrow> scaled x < 0" if "scaled x \<noteq> 0" for x
  proof -
    obtain n :: nat where n: "scaled x = (if sign_of x then - 1 else 1) * int n"
      using scaled_fields[of x] by blast
    then show ?thesis using that by (cases "sign_of x") auto
  qed
  show ?thesis unfolding s[OF a] s[OF b] assms(2) using a b by (auto simp: mult_less_0_iff)
qed

lemma fmul_finite:
  assumes "is_finite a" "is_finite b" "\<bar>valof a * valof b\<bar> < 2 ^ 127"
  shows "is_finite (fmul a b)"
    and "\<bar>valof (fmul a b) - valof a * valof b\<bar> \<le> \<bar>valof a * valof b\<bar> / 2 ^ 24 + 1 / 2 ^ 150"
proof -
  define r where "r = scaled a * scaled b"
  have v: "valof a * valof b = real_of_int r / 2 ^ 298"
    unfolding r_def valof_def by simp
  have f: "fmul a b = round32 (sign_of a \<noteq> sign_of b) (nat \<bar>r\<bar>) (2 ^ 298)"
    using finite_not_special[OF assms(1)] finite_not_special[OF assms(2)]
    by (simp add: fmul_def r_def)
  have both: "is_finite (fmul a b) \<and>
     \<bar>valof (fmul a b) - valof a * valof b\<bar> \<le> \<bar>valof a * valof b\<bar> / 2 ^ 24 + 1 / 2 ^ 150"
  proof (cases "r = 0")
    case True
    then have z: "valof a * valof b = 0" using v by simp
    have "fmul a b = (if sign_of a \<noteq> sign_of b then minus_zero else plus_zero)"
      using f True by (simp add: round32_def)
    then have "is_finite (fmul a b) \<and> valof (fmul a b) = 0" by simp
    then show ?thesis unfolding z by simp
  next
    case False
    have s: "(sign_of a \<noteq> sign_of b) = (r < 0)" by (rule sign_xor_neg[OF False r_def])
    show ?thesis using round_int_error[OF False, of 298] assms(3) unfolding v f s by simp
  qed
  then show "is_finite (fmul a b)"
    and "\<bar>valof (fmul a b) - valof a * valof b\<bar> \<le> \<bar>valof a * valof b\<bar> / 2 ^ 24 + 1 / 2 ^ 150" by auto
qed

lemma fma_finite:
  assumes "is_finite a" "is_finite b" "is_finite c" "\<bar>valof a * valof b + valof c\<bar> < 2 ^ 127"
  shows "is_finite (fma a b c)"
    and "\<bar>valof (fma a b c) - (valof a * valof b + valof c)\<bar>
           \<le> \<bar>valof a * valof b + valof c\<bar> / 2 ^ 24 + 1 / 2 ^ 150"
proof -
  define r where "r = scaled a * scaled b + scaled c * 2 ^ 149"
  have v: "valof a * valof b + valof c = real_of_int r / 2 ^ 298"
    unfolding r_def valof_def by (simp add: field_simps)
  have both: "is_finite (fma a b c) \<and> \<bar>valof (fma a b c) - (valof a * valof b + valof c)\<bar>
           \<le> \<bar>valof a * valof b + valof c\<bar> / 2 ^ 24 + 1 / 2 ^ 150"
  proof (cases "r = 0")
    case True
    then have "fma a b c = (if sign_of a \<noteq> sign_of b \<and> sign_of c then minus_zero else plus_zero)"
      using finite_not_special[OF assms(1)] finite_not_special[OF assms(2)]
        finite_not_special[OF assms(3)]
      by (simp add: fma_def r_def)
    then show ?thesis using True v by simp
  next
    case False
    then have "fma a b c = round32 (r < 0) (nat \<bar>r\<bar>) (2 ^ 298)"
      using finite_not_special[OF assms(1)] finite_not_special[OF assms(2)]
        finite_not_special[OF assms(3)]
      by (simp add: fma_def r_def Let_def)
    then show ?thesis using round_int_error[OF False, of 298] assms(4) unfolding v by simp
  qed
  then show "is_finite (fma a b c)"
    and "\<bar>valof (fma a b c) - (valof a * valof b + valof c)\<bar>
           \<le> \<bar>valof a * valof b + valof c\<bar> / 2 ^ 24 + 1 / 2 ^ 150" by auto
qed

lemma fma_exact:
  assumes "is_finite a" "is_finite b" "is_finite c" "representable (valof a * valof b + valof c)"
  shows "is_finite (fma a b c)" and "valof (fma a b c) = valof a * valof b + valof c"
proof -
  define r where "r = scaled a * scaled b + scaled c * 2 ^ 149"
  have v: "valof a * valof b + valof c = real_of_int r / 2 ^ 298"
    unfolding r_def valof_def by (simp add: field_simps)
  have both: "is_finite (fma a b c) \<and> valof (fma a b c) = valof a * valof b + valof c"
  proof (cases "r = 0")
    case True
    then have "fma a b c = (if sign_of a \<noteq> sign_of b \<and> sign_of c then minus_zero else plus_zero)"
      using finite_not_special[OF assms(1)] finite_not_special[OF assms(2)]
        finite_not_special[OF assms(3)]
      by (simp add: fma_def r_def)
    then show ?thesis using True v by simp
  next
    case False
    then have "fma a b c = round32 (r < 0) (nat \<bar>r\<bar>) (2 ^ 298)"
      using finite_not_special[OF assms(1)] finite_not_special[OF assms(2)]
        finite_not_special[OF assms(3)]
      by (simp add: fma_def r_def Let_def)
    then show ?thesis using round_int_exact[OF False, of 298] assms(4) unfolding v by simp
  qed
  then show "is_finite (fma a b c)" and "valof (fma a b c) = valof a * valof b + valof c" by auto
qed

lemma representable_int: "\<bar>k\<bar> < 2 ^ 24 \<Longrightarrow> representable (real_of_int k)"
  unfolding representable_def
  by (intro exI[of _ "nat \<bar>k\<bar>"] exI[of _ 0]) simp

lemma not_finite_large:
  assumes "\<not> is_finite w"
  shows "2 ^ 128 \<le> \<bar>valof w\<bar>"
proof -
  have e: "expo w = 255" using assms expo_less[of w] by (simp add: is_finite_def)
  have "\<bar>valof w\<bar> = real (2 ^ 23 + mant w) * 2 ^ 254 / 2 ^ 149"
    unfolding valof_def scaled_fields e by (simp add: abs_mult)
  also have "\<dots> \<ge> real (2 ^ 23) * 2 ^ 254 / 2 ^ 149"
    by (intro divide_right_mono mult_right_mono of_nat_mono) auto
  finally show ?thesis by simp
qed

section \<open>Powers of two\<close>

lemma sweep_nth:
  assumes "N \<le> length a" "i < N"
  shows "cells (sweep W lane scalar b a N) ! i
       = (if i < N div W * W then lane (a ! i) else scalar (a ! i))"
proof -
  have q: "N div W * W \<le> N" by (simp add: div_times_less_eq_dividend)
  have l: "length (map lane (take (N div W * W) a)) = N div W * W"
    using le_trans[OF q assms(1)] by simp
  show ?thesis
  proof (cases "i < N div W * W")
    case True
    then show ?thesis using l by (simp add: sweep_def nth_append)
  next
    case False
    then have "i - N div W * W < N - N div W * W" using assms(2) by simp
    then show ?thesis using False l assms by (simp add: sweep_def nth_append)
  qed
qed

lemma power_of_two_valof:
  assumes "power_of_two x"
  shows "valof x = 2 powi (int (expo x) - 127)"
proof -
  have n: "is_normal x" and m: "mant x = 0" and s: "\<not> sign_of x"
    using assms by (simp_all add: power_of_two_def)
  have "0 \<le> scaled x" using s by (simp add: scaled_fields)
  then have "0 \<le> valof x" by (simp add: valof_def)
  then have "valof x = \<bar>valof x\<bar>" by simp
  also have "\<dots> = 2 powi (int (expo x) - 127) * valof (lane_frac x)"
    using normal_decomposition[OF n] by (simp add: spec_significand_eq)
  finally show ?thesis by (simp add: lane_frac_valof m)
qed

lemma lane_frac_one: "mant x = 0 \<Longrightarrow> lane_frac x = 0x3F800000"
  unfolding lane_frac_def word_mant[symmetric] by (simp add: float_lits)

lemma lane_exponent_valof: "valof (lane_exponent x) = real_of_int (int (expo x) - 127)"
  using spec_exponent_valof[of x] by (simp add: spec_exponent_eq)

lemma lane_exponent_finite: "is_finite (lane_exponent x)"
  by (simp add: lane_exponent_def cvt_s32_finite)

lemma exponent_representable: "representable (real_of_int (int (expo x) - 127))"
  using expo_less[of x] by (intro representable_int) simp

lemma correction_at_one:
  "fmul 0x3FB8A9D8 (fsub 0x3F800000 0x3F800000) = plus_zero"
  by (simp add: fp_eval cong: let_weak_cong)

lemma x86_lanes_at_power_of_two:
  assumes "mant x = 0"
  shows "valof (sse4_1_lane x) = real_of_int (int (expo x) - 127)"
    and "valof (avx2_lane x) = real_of_int (int (expo x) - 127)"
    and "valof (avx2_fma_lane x) = real_of_int (int (expo x) - 127)"
proof -
  have r: "representable (valof (lane_exponent x) + valof plus_zero)"
    "representable (valof plus_zero + valof (lane_exponent x))"
    unfolding lane_exponent_valof valof_zero by (simp_all only: add_0_right add_0_left exponent_representable)
  have "sse4_1_lane x = fadd (lane_exponent x) plus_zero"
    by (simp add: sse4_1_lane_def lane_frac_one[OF assms] float_lits poly_at_one correction_at_one)
  then show "valof (sse4_1_lane x) = real_of_int (int (expo x) - 127)"
    using fadd_exact(2)[OF lane_exponent_finite finite_zero(1) r(1)]
    by (simp add: lane_exponent_valof)
  have "avx2_lane x = fadd plus_zero (lane_exponent x)"
    by (simp add: avx2_lane_def lane_frac_one[OF assms] float_lits poly_at_one correction_at_one)
  then show "valof (avx2_lane x) = real_of_int (int (expo x) - 127)"
    using fadd_exact(2)[OF finite_zero(1) lane_exponent_finite r(2)]
    by (simp add: lane_exponent_valof)
  have z: "fsub 0x3F800000 0x3F800000 = plus_zero" by (simp add: fp_eval cong: let_weak_cong)
  have f: "is_finite (0x3FB8A9D8 :: float32)" by (simp add: is_finite_def expo_def)
  have r3: "representable (valof 0x3FB8A9D8 * valof plus_zero + valof (lane_exponent x))"
    unfolding lane_exponent_valof valof_zero
    by (simp only: mult_zero_right add_0_left exponent_representable)
  have "avx2_fma_lane x = fma 0x3FB8A9D8 plus_zero (lane_exponent x)"
    by (simp add: avx2_fma_lane_def lane_frac_one[OF assms] float_lits poly_at_one z)
  then show "valof (avx2_fma_lane x) = real_of_int (int (expo x) - 127)"
    using fma_exact(2)[OF f finite_zero(1) lane_exponent_finite r3]
    by (simp add: lane_exponent_valof)
qed

lemma signed_drop_bit_expo:
  "signed_drop_bit 23 (x AND 0x7f800000 :: 32 word) = drop_bit 23 (x AND 0x7f800000)"
proof -
  define w :: "32 word" where "w = x AND 0x7f800000"
  have m: "(0x7f800000 :: 32 word) = push_bit 23 (mask 8)" by (simp add: mask_eq_exp_minus_1)
  have hi: "\<not> bit w 31" unfolding w_def m by (simp add: bit_simps)
  have "signed_drop_bit 23 w = drop_bit 23 w"
  proof (rule bit_word_eqI)
    fix n assume n: "n < LENGTH(32)"
    show "bit (signed_drop_bit 23 w) n = bit (drop_bit 23 w) n"
    proof (cases "9 \<le> n")
      case True
      then have "\<not> bit w (23 + n)" by (auto dest: bit_imp_le_length)
      then show ?thesis using True n hi by (simp only: bit_signed_drop_bit_iff bit_drop_bit_eq) simp
    next
      case False
      then show ?thesis by (simp only: bit_signed_drop_bit_iff bit_drop_bit_eq) simp
    qed
  qed
  then show ?thesis unfolding w_def .
qed

lemma neon_exponent: "cvt_s32 (signed_drop_bit 23 (x AND 0x7f800000) - 127) = lane_exponent x"
  by (simp only: signed_drop_bit_expo lane_exponent_def)

lemma neon_significand_one:
  "round32 (sint (0x000800000 OR (0 :: 32 word)) < 0) (nat \<bar>sint (0x000800000 OR (0 :: 32 word))\<bar>) (2 ^ 23)
     = 0x3F800000"
  by (simp add: fp_eval cong: let_weak_cong)

lemma neon_products_at_one:
  "fmul 0x3F800000 0x3F800000 = 0x3F800000"
  "fmul 0x3F800000 0x40C39D65 = 0x40C39D65"
  "fmul 0x3F800000 0xC0AAF193 = 0xC0AAF193"
  "fmul 0x3F800000 0x4052567D = 0x4052567D"
  "fmul 0x3F800000 0xBFA22A61 = 0xBFA22A61"
  "fmul 0x3F800000 0x3E8CE04D = 0x3E8CE04D"
  "fmul 0x3F800000 0xBCD2761E = 0xBCD2761E"
  by (simp_all add: fp_eval cong: let_weak_cong)

lemma neon_lane_at_one:
  assumes "mant x = 0"
  shows "neon_lane x = fadd (fadd (fadd (fadd (fadd (fadd (fadd (lane_exponent x)
           0xC0429005) 0x40C39D65) 0xC0AAF193) 0x4052567D) 0xBFA22A61) 0x3E8CE04D) 0xBCD2761E"
proof -
  have z: "x AND 0x7fffff = 0" using assms word_mant[of x] by simp
  show ?thesis
    unfolding neon_lane_def z neon_significand_one neon_exponent neon_coeffs_bits Let_def
      neon_products_at_one ..
qed

lemma neon_coeffs_valof:
  "valof 0xC0429005 = - (12750853 / 2 ^ 22)"
  "valof 0x40C39D65 = 12819813 / 2 ^ 21"
  "valof 0xC0AAF193 = - (11202963 / 2 ^ 21)"
  "valof 0x4052567D = 13784701 / 2 ^ 22"
  "valof 0xBFA22A61 = - (10627681 / 2 ^ 23)"
  "valof 0x3E8CE04D = 9232461 / 2 ^ 25"
  "valof 0xBCD2761E = - (6896399 / 2 ^ 28)"
  by (simp_all add: valof_def fp_eval cong: let_weak_cong)

lemma neon_coeffs_finite:
  "is_finite 0xC0429005" "is_finite 0x40C39D65" "is_finite 0xC0AAF193" "is_finite 0x4052567D"
  "is_finite 0xBFA22A61" "is_finite 0x3E8CE04D" "is_finite 0xBCD2761E"
  by (simp_all add: is_finite_def expo_def)

lemma fadd_step:
  assumes s: "is_finite s" and p: "is_finite p"
    and e: "\<bar>valof s - (k + c)\<bar> \<le> e" and k: "\<bar>k\<bar> \<le> 128" and c: "\<bar>c + valof p\<bar> \<le> 20" and e1: "e \<le> 1"
  shows "is_finite (fadd s p) \<and> \<bar>valof (fadd s p) - (k + (c + valof p))\<bar> \<le> e + 150 / 2 ^ 24"
proof -
  define t where "t = valof s + valof p"
  have a: "\<bar>t - (k + (c + valof p))\<bar> \<le> e" using e unfolding t_def by simp
  have b: "\<bar>t\<bar> \<le> 149" using a k c e1 by linarith
  then have lt: "\<bar>valof s + valof p\<bar> < 2 ^ 127" unfolding t_def by simp
  have "\<bar>valof (fadd s p) - t\<bar> \<le> \<bar>t\<bar> / 2 ^ 24 + 1 / 2 ^ 150"
    using fadd_finite(2)[OF s p lt] unfolding t_def .
  also have "\<dots> \<le> 149 / 2 ^ 24 + 1 / 2 ^ 24"
    using b by (intro add_mono divide_right_mono) simp_all
  finally have "\<bar>valof (fadd s p) - t\<bar> \<le> 150 / 2 ^ 24" by simp
  then have "\<bar>valof (fadd s p) - (k + (c + valof p))\<bar> \<le> e + 150 / 2 ^ 24" using a by linarith
  then show ?thesis using fadd_finite(1)[OF s p lt] by simp
qed

lemma neon_lane_at_power_of_two:
  assumes "mant x = 0"
  shows "\<bar>valof (neon_lane x) - real_of_int (int (expo x) - 127)\<bar> \<le> 1 / 10 ^ 4"
proof -
  define k where "k = real_of_int (int (expo x) - 127)"
  have k: "\<bar>k\<bar> \<le> 128" unfolding k_def using expo_less[of x] by simp
  note cv = neon_coeffs_valof
  note cf = neon_coeffs_finite
  define s0 where "s0 = lane_exponent x"
  define s1 where "s1 = fadd s0 0xC0429005"
  define s2 where "s2 = fadd s1 0x40C39D65"
  define s3 where "s3 = fadd s2 0xC0AAF193"
  define s4 where "s4 = fadd s3 0x4052567D"
  define s5 where "s5 = fadd s4 0xBFA22A61"
  define s6 where "s6 = fadd s5 0x3E8CE04D"
  define s7 where "s7 = fadd s6 0xBCD2761E"
  have f0: "is_finite s0" and b0: "\<bar>valof s0 - (k + 0)\<bar> \<le> 0"
    unfolding s0_def k_def by (simp_all add: lane_exponent_finite lane_exponent_valof)
  have t1: "is_finite s1 \<and> \<bar>valof s1 - (k + (0 + valof 0xC0429005))\<bar> \<le> 0 + 150 / 2 ^ 24"
    unfolding s1_def by (rule fadd_step[OF f0 cf(1) b0 k]) (simp_all add: cv)
  have t2: "is_finite s2 \<and> \<bar>valof s2 - (k + ((0 + valof 0xC0429005) + valof 0x40C39D65))\<bar>
      \<le> (0 + 150 / 2 ^ 24) + 150 / 2 ^ 24"
    unfolding s2_def by (rule fadd_step[OF conjunct1[OF t1] cf(2) conjunct2[OF t1] k]) (simp_all add: cv)
  have t3: "is_finite s3 \<and> \<bar>valof s3 - (k + (((0 + valof 0xC0429005) + valof 0x40C39D65) + valof 0xC0AAF193))\<bar>
      \<le> ((0 + 150 / 2 ^ 24) + 150 / 2 ^ 24) + 150 / 2 ^ 24"
    unfolding s3_def by (rule fadd_step[OF conjunct1[OF t2] cf(3) conjunct2[OF t2] k]) (simp_all add: cv)
  have t4: "is_finite s4 \<and> \<bar>valof s4 - (k + ((((0 + valof 0xC0429005) + valof 0x40C39D65) + valof 0xC0AAF193)
         + valof 0x4052567D))\<bar>
      \<le> (((0 + 150 / 2 ^ 24) + 150 / 2 ^ 24) + 150 / 2 ^ 24) + 150 / 2 ^ 24"
    unfolding s4_def by (rule fadd_step[OF conjunct1[OF t3] cf(4) conjunct2[OF t3] k]) (simp_all add: cv)
  have t5: "is_finite s5 \<and> \<bar>valof s5 - (k + (((((0 + valof 0xC0429005) + valof 0x40C39D65) + valof 0xC0AAF193)
         + valof 0x4052567D) + valof 0xBFA22A61))\<bar>
      \<le> ((((0 + 150 / 2 ^ 24) + 150 / 2 ^ 24) + 150 / 2 ^ 24) + 150 / 2 ^ 24) + 150 / 2 ^ 24"
    unfolding s5_def by (rule fadd_step[OF conjunct1[OF t4] cf(5) conjunct2[OF t4] k]) (simp_all add: cv)
  have t6: "is_finite s6 \<and> \<bar>valof s6 - (k + ((((((0 + valof 0xC0429005) + valof 0x40C39D65) + valof 0xC0AAF193)
         + valof 0x4052567D) + valof 0xBFA22A61) + valof 0x3E8CE04D))\<bar>
      \<le> (((((0 + 150 / 2 ^ 24) + 150 / 2 ^ 24) + 150 / 2 ^ 24) + 150 / 2 ^ 24) + 150 / 2 ^ 24) + 150 / 2 ^ 24"
    unfolding s6_def by (rule fadd_step[OF conjunct1[OF t5] cf(6) conjunct2[OF t5] k]) (simp_all add: cv)
  have t7: "is_finite s7 \<and> \<bar>valof s7 - (k + (((((((0 + valof 0xC0429005) + valof 0x40C39D65) + valof 0xC0AAF193)
         + valof 0x4052567D) + valof 0xBFA22A61) + valof 0x3E8CE04D) + valof 0xBCD2761E))\<bar>
      \<le> ((((((0 + 150 / 2 ^ 24) + 150 / 2 ^ 24) + 150 / 2 ^ 24) + 150 / 2 ^ 24) + 150 / 2 ^ 24) + 150 / 2 ^ 24)
         + 150 / 2 ^ 24"
    unfolding s7_def by (rule fadd_step[OF conjunct1[OF t6] cf(7) conjunct2[OF t6] k]) (simp_all add: cv)
  have n: "neon_lane x = s7"
    unfolding neon_lane_at_one[OF assms] s7_def s6_def s5_def s4_def s3_def s2_def s1_def s0_def ..
  have "\<bar>valof s7 - (k + 569 / 2 ^ 28)\<bar> \<le> 1050 / 2 ^ 24"
    using conjunct2[OF t7] by (simp add: cv)
  moreover have "(569 :: real) / 2 ^ 28 + 1050 / 2 ^ 24 \<le> 1 / 10 ^ 4" "(0 :: real) \<le> 569 / 2 ^ 28"
    by simp_all
  ultimately have "\<bar>valof s7 - k\<bar> \<le> 1 / 10 ^ 4" by linarith
  then show ?thesis unfolding n k_def .
qed

lemma scalars_at_power_of_two:
  assumes lm: "\<forall>x. power_of_two x \<longrightarrow> \<bar>valof (lm x) - real_of_int (int (expo x) - 127)\<bar> \<le> tol"
    and tol: "tol \<le> 1" and x: "power_of_two x"
  shows "log2f_non_ieee lm x = lm x" "u_scalar lm x = lm x"
proof -
  have n: "is_normal x" and m: "mant x = 0" and s: "\<not> sign_of x"
    using x by (simp_all add: power_of_two_def)
  have f: "is_finite x" using n by (simp add: is_normal_def is_finite_def)
  have "scaled x \<noteq> 0" using n by (simp add: scaled_fields is_normal_def)
  then have l: "log2f lm x = lm x"
    using finite_not_special[OF f] s by (simp add: log2f_def)
  have b: "\<bar>valof (lm x) - real_of_int (int (expo x) - 127)\<bar> \<le> tol" using lm x by blast
  have "\<bar>real_of_int (int (expo x) - 127)\<bar> \<le> 128" using expo_less[of x] by simp
  then have "\<bar>valof (lm x)\<bar> \<le> 129" using b tol by linarith
  then have "\<bar>valof (lm x)\<bar> < 2 ^ 128" by simp
  then have "is_finite (lm x)" using not_finite_large[of "lm x"] by fastforce
  then have i: "\<not> isinf (lm x)" using finite_not_special by (simp add: isinf_def)
  show "log2f_non_ieee lm x = lm x" "u_scalar lm x = lm x"
    using i by (simp_all add: log2f_non_ieee_def u_scalar_def l)
qed

lemma log2f_trunc_power_of_two:
  assumes "power_of_two x"
  shows "valof (log2f_trunc x) = real_of_int (int (expo x) - 127)"
proof -
  define e where "e = expo x"
  have n: "0 < e" and m: "mant x = 0" and s: "\<not> sign_of x"
    using assms by (simp_all add: power_of_two_def is_normal_def e_def)
  obtain e' where e': "e = Suc e'" using n by (cases e) auto
  have "(2::nat) ^ (e + 22) = 2 ^ 23 * 2 ^ (e - 1)"
    unfolding e' by (simp add: power_add)
  then have sc: "scaled x = int (2 ^ (e + 22))"
    using n m s unfolding scaled_fields e_def[symmetric] by simp
  have N: "nat (scaled x) = 2 ^ (e + 22)" unfolding sc by simp
  have q: "real (2 ^ (e + 22)) / real (2 ^ 149) = 2 powi (int e - 127)"
    by (simp add: power_int_diff power_int_add power_add)
  define il where "il = ilog2 (2 ^ (e + 22)) (2 ^ 149)"
  have b: "2 powi il \<le> (2::real) powi (int e - 127)" "(2::real) powi (int e - 127) < 2 powi (il + 1)"
    using ilog2_bounds[of "2 ^ (e + 22)" "2 ^ 149"] unfolding q il_def by simp_all
  have "il \<le> int e - 127"
  proof (rule ccontr)
    assume "\<not> il \<le> int e - 127"
    then have "(2::real) powi (int e - 127) < 2 powi il" by (intro power_int_strict_increasing) auto
    with b(1) show False by simp
  qed
  moreover have "int e - 127 < il + 1"
  proof (rule ccontr)
    assume "\<not> int e - 127 < il + 1"
    then have "(2::real) powi (il + 1) \<le> 2 powi (int e - 127)" by (intro power_int_increasing) auto
    with b(2) show False by simp
  qed
  ultimately have il: "il = int e - 127" by simp
  have w: "(word_of_int (int e - 127) :: 32 word) = word_of_nat e - 127" by simp
  have "log2f_trunc x = cvt_s32 (word_of_int il)"
    unfolding log2f_trunc_def N il_def ..
  also have "\<dots> = spec_exponent x"
    unfolding il spec_exponent_def e_def by simp
  finally have "log2f_trunc x = spec_exponent x" .
  then show ?thesis by (simp add: spec_exponent_valof)
qed

text \<open>
  Claim C8. An input \<open>2\<^sup>k\<close> that is a normal float has a zero significand field and the
  biased exponent \<open>k + 127\<close>. At such an element every kernel stores a value close to \<open>k\<close>:
  the lanes of the SSE4.1 and AVX2 kernels, fused or not, store \<open>k\<close> exactly, the NEON lane
  a value within \<open>10\<^sup>-\<^sup>4\<close> of \<open>k\<close>, and the scalar kernels and tails what the platform
  logarithm returns, which is within \<open>tol\<close> of \<open>k\<close> by hypothesis.
\<close>

theorem powers_of_two:
  assumes "N \<le> length a" "N \<le> length b" "i < N" "power_of_two (a ! i)"
    and "\<forall>x. power_of_two x \<longrightarrow> \<bar>valof (lm x) - real_of_int (int (expo x) - 127)\<bar> \<le> tol"
    and "tol \<le> 1"
  shows "valof (a ! i) = 2 powi (int (expo (a ! i)) - 127)
    \<and> \<bar>valof (cells (volk_32f_log2_32f_generic lm a 0 0 N (fresh b)) ! i)
         - real_of_int (int (expo (a ! i)) - 127)\<bar> \<le> tol
    \<and> \<bar>valof (cells (volk_32f_log2_32f_u_generic lm a 0 0 N (fresh b)) ! i)
         - real_of_int (int (expo (a ! i)) - 127)\<bar> \<le> tol
    \<and> \<bar>valof (cells (volk_32f_log2_32f_a_sse4_1 lm b a N) ! i)
         - real_of_int (int (expo (a ! i)) - 127)\<bar> \<le> tol
    \<and> \<bar>valof (cells (volk_32f_log2_32f_u_sse4_1 lm b a N) ! i)
         - real_of_int (int (expo (a ! i)) - 127)\<bar> \<le> tol
    \<and> \<bar>valof (cells (volk_32f_log2_32f_a_avx2 lm b a N) ! i)
         - real_of_int (int (expo (a ! i)) - 127)\<bar> \<le> tol
    \<and> \<bar>valof (cells (volk_32f_log2_32f_u_avx2 lm b a N) ! i)
         - real_of_int (int (expo (a ! i)) - 127)\<bar> \<le> tol
    \<and> \<bar>valof (cells (volk_32f_log2_32f_a_avx2_fma lm b a N) ! i)
         - real_of_int (int (expo (a ! i)) - 127)\<bar> \<le> tol
    \<and> \<bar>valof (cells (volk_32f_log2_32f_u_avx2_fma lm b a N) ! i)
         - real_of_int (int (expo (a ! i)) - 127)\<bar> \<le> tol
    \<and> \<bar>valof (cells (volk_32f_log2_32f_neon lm b a N) ! i)
         - real_of_int (int (expo (a ! i)) - 127)\<bar> \<le> max tol (1 / 10 ^ 4)"
proof -
  define x where "x = a ! i"
  define k where "k = real_of_int (int (expo x) - 127)"
  have p: "power_of_two x" using assms(4) unfolding x_def .
  have m: "mant x = 0" using p by (simp add: power_of_two_def)
  have sc: "log2f_non_ieee lm x = lm x" "u_scalar lm x = lm x"
    by (rule scalars_at_power_of_two[OF assms(5,6) p])+
  have l: "\<bar>valof (lm x) - k\<bar> \<le> tol" using assms(5) p unfolding k_def by blast
  then have t: "0 \<le> tol" by linarith
  have x86: "valof (sse4_1_lane x) = k" "valof (avx2_lane x) = k" "valof (avx2_fma_lane x) = k"
    unfolding k_def by (rule x86_lanes_at_power_of_two[OF m])+
  have neon: "\<bar>valof (neon_lane x) - k\<bar> \<le> 1 / 10 ^ 4"
    unfolding k_def by (rule neon_lane_at_power_of_two[OF m])
  have g: "cells (volk_32f_log2_32f_generic lm a 0 0 N (fresh b)) ! i = log2f_non_ieee lm x"
    "cells (volk_32f_log2_32f_u_generic lm a 0 0 N (fresh b)) ! i = u_scalar lm x"
    using assms(1,2,3) by (simp_all add: generic_cells u_generic_cells nth_append x_def)
  have le: "\<bar>valof (if c then y else z) - k\<bar> \<le> tol"
    if "valof y = k" "z = lm x" for c and y z :: float32
    using that l t by simp
  have n4: "\<bar>valof (if c then neon_lane x else log2f_non_ieee lm x) - k\<bar> \<le> max tol (1 / 10 ^ 4)" for c
  proof (cases c)
    case True
    have "\<bar>valof (neon_lane x) - k\<bar> \<le> max tol (1 / 10 ^ 4)" using neon by (rule max.coboundedI2)
    then show ?thesis using True by simp
  next
    case False
    have "\<bar>valof (lm x) - k\<bar> \<le> max tol (1 / 10 ^ 4)" using l by (rule max.coboundedI1)
    then show ?thesis using False sc(1) by simp
  qed
  show ?thesis
    unfolding kernel_sweeps[OF assms(1,2)] sweep_nth[OF assms(1,3)] g
      x_def[symmetric] k_def[symmetric]
    using power_of_two_valof[OF p] l sc le[OF x86(1) sc(1)] le[OF x86(1) sc(2)]
      le[OF x86(2) sc(1)] le[OF x86(2) sc(2)] le[OF x86(3) sc(1)] le[OF x86(3) sc(2)] n4
    by simp
qed

lemma list_all2_five:
  assumes "length ys = 5" "P (ys ! 0) k0" "P (ys ! 1) k1" "P (ys ! 2) k2" "P (ys ! 3) k3" "P (ys ! 4) k4"
  shows "list_all2 P ys [k0, k1, k2, k3, k4]"
proof -
  obtain y0 y1 y2 y3 y4 where ys: "ys = [y0, y1, y2, y3, y4]"
    using assms(1) by (auto simp: length_Suc_conv eval_nat_numeral)
  show ?thesis using assms(2-) unfolding ys by simp
qed

lemma power_of_two_samples:
  "power_of_two 0x3F800000" "expo 0x3F800000 = 127"
  "power_of_two 0x40000000" "expo 0x40000000 = 128"
  "power_of_two 0x40800000" "expo 0x40800000 = 129"
  "power_of_two 0x44800000" "expo 0x44800000 = 137"
  "power_of_two 0x3F000000" "expo 0x3F000000 = 126"
  by (simp_all add: power_of_two_def is_normal_def sign_of_def expo_def mant_def)

theorem powers_of_two_witness:
  "list_all2 (\<lambda>y k. \<bar>valof y - k\<bar> \<le> 1 / 10 ^ 4)
     (cells (volk_32f_log2_32f_generic log2f_trunc
        [0x3F800000, 0x40000000, 0x40800000, 0x44800000, 0x3F000000] 0 0 5 (fresh [0, 0, 0, 0, 0])))
     [0, 1, 2, 10, - 1]
   \<and> list_all2 (\<lambda>y k. \<bar>valof y - k\<bar> \<le> 1 / 10 ^ 4)
     (cells (volk_32f_log2_32f_u_generic log2f_trunc
        [0x3F800000, 0x40000000, 0x40800000, 0x44800000, 0x3F000000] 0 0 5 (fresh [0, 0, 0, 0, 0])))
     [0, 1, 2, 10, - 1]
   \<and> list_all2 (\<lambda>y k. \<bar>valof y - k\<bar> \<le> 1 / 10 ^ 4)
     (cells (volk_32f_log2_32f_a_sse4_1 log2f_trunc [0, 0, 0, 0, 0]
        [0x3F800000, 0x40000000, 0x40800000, 0x44800000, 0x3F000000] 5))
     [0, 1, 2, 10, - 1]
   \<and> list_all2 (\<lambda>y k. \<bar>valof y - k\<bar> \<le> 1 / 10 ^ 4)
     (cells (volk_32f_log2_32f_u_sse4_1 log2f_trunc [0, 0, 0, 0, 0]
        [0x3F800000, 0x40000000, 0x40800000, 0x44800000, 0x3F000000] 5))
     [0, 1, 2, 10, - 1]
   \<and> list_all2 (\<lambda>y k. \<bar>valof y - k\<bar> \<le> 1 / 10 ^ 4)
     (cells (volk_32f_log2_32f_a_avx2 log2f_trunc [0, 0, 0, 0, 0]
        [0x3F800000, 0x40000000, 0x40800000, 0x44800000, 0x3F000000] 5))
     [0, 1, 2, 10, - 1]
   \<and> list_all2 (\<lambda>y k. \<bar>valof y - k\<bar> \<le> 1 / 10 ^ 4)
     (cells (volk_32f_log2_32f_u_avx2 log2f_trunc [0, 0, 0, 0, 0]
        [0x3F800000, 0x40000000, 0x40800000, 0x44800000, 0x3F000000] 5))
     [0, 1, 2, 10, - 1]
   \<and> list_all2 (\<lambda>y k. \<bar>valof y - k\<bar> \<le> 1 / 10 ^ 4)
     (cells (volk_32f_log2_32f_a_avx2_fma log2f_trunc [0, 0, 0, 0, 0]
        [0x3F800000, 0x40000000, 0x40800000, 0x44800000, 0x3F000000] 5))
     [0, 1, 2, 10, - 1]
   \<and> list_all2 (\<lambda>y k. \<bar>valof y - k\<bar> \<le> 1 / 10 ^ 4)
     (cells (volk_32f_log2_32f_u_avx2_fma log2f_trunc [0, 0, 0, 0, 0]
        [0x3F800000, 0x40000000, 0x40800000, 0x44800000, 0x3F000000] 5))
     [0, 1, 2, 10, - 1]
   \<and> list_all2 (\<lambda>y k. \<bar>valof y - k\<bar> \<le> 1 / 10 ^ 4)
     (cells (volk_32f_log2_32f_neon log2f_trunc [0, 0, 0, 0, 0]
        [0x3F800000, 0x40000000, 0x40800000, 0x44800000, 0x3F000000] 5))
     [0, 1, 2, 10, - 1]"
proof -
  define a :: "float32 list" where "a = [0x3F800000, 0x40000000, 0x40800000, 0x44800000, 0x3F000000]"
  define b :: "float32 list" where "b = [0, 0, 0, 0, 0]"
  have la: "5 \<le> length a" and lb: "5 \<le> length b" by (simp_all add: a_def b_def)
  have lm: "\<forall>x. power_of_two x \<longrightarrow> \<bar>valof (log2f_trunc x) - real_of_int (int (expo x) - 127)\<bar> \<le> 0"
    by (simp add: log2f_trunc_power_of_two)
  have s: "a ! 0 = 0x3F800000" "a ! 1 = 0x40000000" "a ! 2 = 0x40800000" "a ! 3 = 0x44800000"
    "a ! 4 = 0x3F000000"
    by (simp_all add: a_def)
  note t = powers_of_two[OF la lb _ _ lm, unfolded max_def]
  have t0: "power_of_two (a ! 0)" and t1: "power_of_two (a ! 1)" and t2: "power_of_two (a ! 2)"
    and t3: "power_of_two (a ! 3)" and t4: "power_of_two (a ! 4)"
    unfolding s by (rule power_of_two_samples)+
  note r0 = t[of 0, OF _ t0, unfolded s power_of_two_samples, simplified]
  note r1 = t[of 1, OF _ t1, unfolded s power_of_two_samples, simplified]
  note r2 = t[of 2, OF _ t2, unfolded s power_of_two_samples, simplified]
  note r3 = t[of 3, OF _ t3, unfolded s power_of_two_samples, simplified]
  note r4 = t[of 4, OF _ t4, unfolded s power_of_two_samples, simplified]
  have len: "length (cells (volk_32f_log2_32f_generic log2f_trunc a 0 0 5 (fresh b))) = 5"
    "length (cells (volk_32f_log2_32f_u_generic log2f_trunc a 0 0 5 (fresh b))) = 5"
    "length (cells (volk_32f_log2_32f_a_sse4_1 log2f_trunc b a 5)) = 5"
    "length (cells (volk_32f_log2_32f_u_sse4_1 log2f_trunc b a 5)) = 5"
    "length (cells (volk_32f_log2_32f_a_avx2 log2f_trunc b a 5)) = 5"
    "length (cells (volk_32f_log2_32f_u_avx2 log2f_trunc b a 5)) = 5"
    "length (cells (volk_32f_log2_32f_a_avx2_fma log2f_trunc b a 5)) = 5"
    "length (cells (volk_32f_log2_32f_u_avx2_fma log2f_trunc b a 5)) = 5"
    "length (cells (volk_32f_log2_32f_neon log2f_trunc b a 5)) = 5"
    using la lb by (simp_all add: generic_cells u_generic_cells kernel_sweeps sweep_def a_def b_def)
  show ?thesis
    unfolding a_def[symmetric] b_def[symmetric]
    by (intro conjI list_all2_five len) (simp_all add: r0 r1 r2 r3 r4)
qed

section \<open>The natural logarithm of two\<close>

lemma exp_lower_taylor:
  fixes x :: real
  assumes "0 \<le> x"
  shows "(\<Sum>m<n. x ^ m / fact m) \<le> exp x"
proof -
  obtain t where t: "exp x = (\<Sum>m<n. x ^ m / fact m) + exp t / fact n * x ^ n"
    using Maclaurin_exp_le[of x n] by blast
  have "0 \<le> exp t / fact n * x ^ n" using assms by simp
  then show ?thesis unfolding t by simp
qed

lemma exp_upper_taylor:
  fixes x :: real
  assumes "0 \<le> x" "x \<le> 1"
  shows "exp x \<le> (\<Sum>m<n. x ^ m / fact m) + 3 * x ^ n / fact n"
proof -
  obtain t where t: "\<bar>t\<bar> \<le> \<bar>x\<bar>" "exp x = (\<Sum>m<n. x ^ m / fact m) + exp t / fact n * x ^ n"
    using Maclaurin_exp_le[of x n] by blast
  have "t \<le> 1" using t(1) assms by linarith
  then have "exp t \<le> exp 1" by simp
  also have "\<dots> \<le> 3" by (rule exp_le)
  finally have "exp t / fact n * x ^ n \<le> 3 / fact n * x ^ n"
    using assms by (intro mult_right_mono divide_right_mono) simp_all
  then show ?thesis unfolding t(2) by simp
qed

lemma ln2_bounds: "693147 / 10 ^ 6 \<le> ln (2::real)" "ln (2::real) \<le> 693148 / 10 ^ 6"
proof -
  have "exp (693147 / 10 ^ 6 :: real) \<le> (\<Sum>m<12. (693147 / 10 ^ 6) ^ m / fact m) + 3 * (693147 / 10 ^ 6) ^ 12 / fact 12"
    by (rule exp_upper_taylor) simp_all
  also have "\<dots> \<le> 2" by (simp add: lessThan_nat_numeral lessThan_Suc fact_numeral power_divide)
  finally have "exp (693147 / 10 ^ 6 :: real) \<le> 2" .
  then show "693147 / 10 ^ 6 \<le> ln (2::real)" by (subst ln_ge_iff) simp_all
  have "(2::real) \<le> (\<Sum>m<12. (693148 / 10 ^ 6) ^ m / fact m)"
    by (simp add: lessThan_nat_numeral lessThan_Suc fact_numeral power_divide)
  also have "\<dots> \<le> exp (693148 / 10 ^ 6)" by (rule exp_lower_taylor) simp
  finally have "ln (2::real) \<le> ln (exp (693148 / 10 ^ 6))" by (subst ln_le_cancel_iff) simp_all
  then show "ln (2::real) \<le> 693148 / 10 ^ 6" by simp
qed

section \<open>Polynomials and their distance from the logarithm\<close>

lemma peval_padd: "peval (padd p q) x = peval p x + peval q x"
  by (induction p q rule: padd.induct) (simp_all add: algebra_simps)

lemma peval_smult: "peval (smult a p) x = a * peval p x"
  by (induction p) (simp_all add: algebra_simps)

lemma peval_pmul: "peval (pmul p q) x = peval p x * peval q x"
  by (induction p) (simp_all add: peval_padd peval_smult algebra_simps)

lemma peval_pshift: "peval (pshift a cs) t = peval cs (a + t)"
  by (induction cs) (simp_all add: peval_padd peval_smult algebra_simps)

lemma peval_deriv: "(peval cs has_real_derivative peval (pderiv_l cs) x) (at x)"
proof (induction cs arbitrary: x)
  case Nil
  show ?case by simp
next
  case (Cons c cs)
  have "((\<lambda>x. c + x * peval cs x) has_real_derivative
          (peval cs x + x * peval (pderiv_l cs) x)) (at x)"
    by (auto intro!: derivative_eq_intros Cons.IH)
  then show ?case by (simp add: peval_padd)
qed

lemma peval_abs: "\<bar>t\<bar> \<le> h \<Longrightarrow> \<bar>peval cs t\<bar> \<le> pabs cs h"
proof (induction cs)
  case Nil
  show ?case by simp
next
  case (Cons c cs)
  have "\<bar>t * peval cs t\<bar> \<le> h * pabs cs h"
    unfolding abs_mult using Cons by (intro mult_mono) auto
  then show ?case by (simp; linarith)
qed

lemma pcheck_sound:
  assumes "0 \<le> h" "pcheck cs lo hi a h n" "a \<le> m" "m \<le> a + 2 * h * real n" "0 < n"
  shows "lo \<le> peval cs m \<and> peval cs m \<le> hi"
  using assms(2-)
proof (induction n arbitrary: a)
  case 0
  then show ?case by simp
next
  case (Suc n)
  show ?case
  proof (cases "m \<le> a + 2 * h")
    case True
    define t where "t = m - (a + h)"
    have t: "\<bar>t\<bar> \<le> h" using True Suc.prems(2) unfolding t_def by simp
    have e: "peval cs m = peval (pshift (a + h) cs) t"
      unfolding peval_pshift t_def by simp
    show ?thesis
    proof (cases "pshift (a + h) cs")
      case Nil
      then show ?thesis using Suc.prems(1) e by simp
    next
      case (Cons r rs)
      have "\<bar>t * peval rs t\<bar> \<le> h * pabs rs h"
        unfolding abs_mult using t peval_abs[OF t, of rs] by (intro mult_mono) auto
      then show ?thesis using Suc.prems(1) e Cons by (simp; linarith)
    qed
  next
    case False
    have m: "m \<le> a + 2 * h + 2 * h * real n" using Suc.prems(3) by (simp add: algebra_simps)
    have "0 < n" using m False by (cases n) auto
    then show ?thesis using Suc.IH[of "a + 2 * h"] Suc.prems(1) False m by simp
  qed
qed

lemma log2_approx_by_derivative:
  fixes p :: "real list"
  assumes d: "\<And>z. 1 \<le> z \<Longrightarrow> z \<le> 2 \<Longrightarrow> \<bar>peval (pderiv_l p) z - 1 / (z * ln 2)\<bar> \<le> \<eta>"
    and m: "1 \<le> m" "m \<le> 2"
  shows "\<bar>(peval p m - log 2 m) - peval p 1\<bar> \<le> \<eta> * (m - 1)"
proof (cases "m = 1")
  case True
  then show ?thesis by simp
next
  case False
  then have lt: "1 < m" using m by simp
  define f where "f = (\<lambda>z. peval p z - ln z / ln 2)"
  define f' where "f' = (\<lambda>z. peval (pderiv_l p) z - 1 / (z * ln 2))"
  have "\<exists>z. 1 < z \<and> z < m \<and> f m - f 1 = (m - 1) * f' z"
  proof (rule MVT2[OF lt])
    fix z :: real assume z: "1 \<le> z" "z \<le> m"
    show "(f has_real_derivative f' z) (at z)"
      unfolding f_def f'_def using z
      by (auto intro!: derivative_eq_intros peval_deriv simp: field_simps)
  qed
  then obtain z where z: "1 < z" "z < m" "f m - f 1 = (m - 1) * f' z" by blast
  have "\<bar>f' z\<bar> \<le> \<eta>" unfolding f'_def using d[of z] z m by simp
  then have "\<bar>(m - 1) * f' z\<bar> \<le> (m - 1) * \<eta>"
    unfolding abs_mult using lt by (intro mult_mono) auto
  then show ?thesis unfolding z(3)[symmetric] f_def log_def by (simp add: mult.commute)
qed

lemma derivative_certificate:
  assumes lo: "pcheck (padd (0 # pderiv_l p) [- c, - \<delta>]) (- 1) 0 1 h n"
    and hi: "pcheck (padd (0 # pderiv_l p) [- c, \<delta>]) 0 1 1 h n"
    and h: "0 \<le> h" "2 * h * real n = 1" "0 < n"
    and c: "\<bar>c - 1 / ln 2\<bar> \<le> \<epsilon>"
    and z: "1 \<le> z" "z \<le> 2"
  shows "\<bar>peval (pderiv_l p) z - 1 / (z * ln 2)\<bar> \<le> \<delta> + \<epsilon>"
proof -
  define D where "D = peval (pderiv_l p) z"
  have zz: "z \<le> 1 + 2 * h * real n" using z h by simp
  have a: "z * D - c - \<delta> * z \<le> 0"
    using pcheck_sound[OF h(1) lo z(1) zz h(3)] by (simp add: peval_padd D_def algebra_simps)
  have b: "0 \<le> z * D - c + \<delta> * z"
    using pcheck_sound[OF h(1) hi z(1) zz h(3)] by (simp add: peval_padd D_def algebra_simps)
  have "\<bar>z * D - c\<bar> \<le> \<delta> * z" using a b by linarith
  then have "\<bar>z * D - c\<bar> / z \<le> \<delta> * z / z" using z by (intro divide_right_mono) auto
  moreover have "\<bar>z * D - c\<bar> / z = \<bar>D - c / z\<bar>"
  proof -
    have "D - c / z = (z * D - c) / z" using z by (simp add: field_simps)
    then show ?thesis using z by simp
  qed
  ultimately have 1: "\<bar>D - c / z\<bar> \<le> \<delta>" using z by simp
  have "c / z - 1 / (z * ln 2) = (c - 1 / ln 2) / z" using z by (simp add: field_simps)
  then have "\<bar>c / z - 1 / (z * ln 2)\<bar> = \<bar>c - 1 / ln 2\<bar> / z" using z by simp
  also have "\<dots> \<le> \<bar>c - 1 / ln 2\<bar> / 1" using z by (intro divide_left_mono) auto
  finally have 2: "\<bar>c / z - 1 / (z * ln 2)\<bar> \<le> \<epsilon>" using c by simp
  show ?thesis unfolding D_def[symmetric] using 1 2 by linarith
qed

lemma inv_ln2: "\<bar>1442695 / 10 ^ 6 - 1 / ln (2::real)\<bar> \<le> 2 / 10 ^ 6"
proof -
  have p: "0 < ln (2::real)" by simp
  have "1 / ln (2::real) \<le> 1 / (693147 / 10 ^ 6)"
    using ln2_bounds(1) by (intro divide_left_mono) auto
  also have "\<dots> \<le> 1442696 / 1000000" by simp
  finally have u: "1 / ln (2::real) \<le> 1442696 / 1000000" .
  have "(1442693 / 1000000 :: real) \<le> 1 / (693148 / 10 ^ 6)" by simp
  also have "\<dots> \<le> 1 / ln (2::real)"
    using ln2_bounds(2) p by (intro divide_left_mono) auto
  finally have l: "1442693 / 1000000 \<le> 1 / ln (2::real)" .
  have "\<bar>1442695 / 1000000 - 1 / ln (2::real)\<bar> \<le> 2 / 1000000" using u l by linarith
  then show ?thesis by simp
qed

lemma log2_coeffs_valof:
  "valof 0x4047691A = 6534285 / 2 ^ 21"
  "valof 0xC054BFAD = - (13942701 / 2 ^ 22)"
  "valof 0x4026537B = 10900347 / 2 ^ 22"
  "valof 0xBF9DA2C9 = - (10330825 / 2 ^ 23)"
  "valof 0x3EA2ECDD = 10677469 / 2 ^ 25"
  "valof 0xBD0D0CC5 = - (9243845 / 2 ^ 28)"
  by (simp_all add: valof_def fp_eval cong: let_weak_cong)

lemma log2_poly_eq:
  "log2_poly = [6534285 / 2 ^ 21, - (13942701 / 2 ^ 22), 10900347 / 2 ^ 22,
                - (10330825 / 2 ^ 23), 10677469 / 2 ^ 25, - (9243845 / 2 ^ 28)]"
  unfolding log2_poly_def log2_coeffs_bits by (simp only: list.map log2_coeffs_valof)

lemma neon_poly_eq:
  "neon_poly = [- (12750853 / 2 ^ 22), 12819813 / 2 ^ 21, - (11202963 / 2 ^ 21),
                13784701 / 2 ^ 22, - (10627681 / 2 ^ 23), 9232461 / 2 ^ 25, - (6896399 / 2 ^ 28)]"
  unfolding neon_poly_def neon_coeffs_bits by (simp only: list.map neon_coeffs_valof)

lemma eight: "(8::nat) = Suc (Suc (Suc (Suc (Suc (Suc (Suc (Suc 0)))))))"
  by simp

lemma log2_poly_certificate:
  "pcheck (padd (0 # pderiv_l (pmul [- 1, 1] log2_poly)) [- (1442695 / 10 ^ 6), - (65 / 10 ^ 5)])
     (- 1) 0 1 (1 / 16) 8"
  "pcheck (padd (0 # pderiv_l (pmul [- 1, 1] log2_poly)) [- (1442695 / 10 ^ 6), 65 / 10 ^ 5])
     0 1 1 (1 / 16) 8"
  unfolding log2_poly_eq eight by simp_all

lemma neon_poly_certificate:
  "pcheck (padd (0 # pderiv_l neon_poly) [- (1442695 / 10 ^ 6), - (25 / 10 ^ 5)])
     (- 1) 0 1 (1 / 16) 8"
  "pcheck (padd (0 # pderiv_l neon_poly) [- (1442695 / 10 ^ 6), 25 / 10 ^ 5])
     0 1 1 (1 / 16) 8"
  unfolding neon_poly_eq eight by simp_all

lemma log2_poly_approx:
  assumes "1 \<le> m" "m \<le> 2"
  shows "\<bar>peval log2_poly m * (m - 1) - log 2 m\<bar> \<le> 652 / 10 ^ 6 * (m - 1)"
proof -
  have d: "\<bar>peval (pderiv_l (pmul [- 1, 1] log2_poly)) z - 1 / (z * ln 2)\<bar> \<le> 65 / 10 ^ 5 + 2 / 10 ^ 6"
    if "1 \<le> z" "z \<le> 2" for z
    by (rule derivative_certificate[OF log2_poly_certificate _ _ _ inv_ln2 that]) simp_all
  have e: "peval (pmul [- 1, 1] log2_poly) z = peval log2_poly z * (z - 1)" for z
    unfolding peval_pmul by simp
  have "\<bar>(peval (pmul [- 1, 1] log2_poly) m - log 2 m) - peval (pmul [- 1, 1] log2_poly) 1\<bar>
      \<le> (65 / 10 ^ 5 + 2 / 10 ^ 6) * (m - 1)"
    by (rule log2_approx_by_derivative[OF d assms])
  then show ?thesis unfolding e by simp
qed

lemma neon_poly_approx:
  assumes "1 \<le> m" "m \<le> 2"
  shows "\<bar>peval neon_poly m - log 2 m\<bar> \<le> 569 / 2 ^ 28 + 252 / 10 ^ 6 * (m - 1)"
proof -
  have d: "\<bar>peval (pderiv_l neon_poly) z - 1 / (z * ln 2)\<bar> \<le> 25 / 10 ^ 5 + 2 / 10 ^ 6"
    if "1 \<le> z" "z \<le> 2" for z
    by (rule derivative_certificate[OF neon_poly_certificate _ _ _ inv_ln2 that]) simp_all
  have one: "peval neon_poly 1 = 569 / 2 ^ 28" unfolding neon_poly_eq by simp
  have "\<bar>(peval neon_poly m - log 2 m) - peval neon_poly 1\<bar> \<le> (25 / 10 ^ 5 + 2 / 10 ^ 6) * (m - 1)"
    by (rule log2_approx_by_derivative[OF d assms])
  then have "\<bar>(peval neon_poly m - log 2 m) - 569 / 2 ^ 28\<bar> \<le> 252 / 10 ^ 6 * (m - 1)"
    unfolding one by simp
  moreover have "(0::real) \<le> 569 / 2 ^ 28" by simp
  ultimately show ?thesis by linarith
qed

section \<open>The rounding errors of the lanes\<close>

lemma close_exact: "is_finite x \<Longrightarrow> valof x = r \<Longrightarrow> close_to x r 0"
  by (simp add: close_to_def)

lemma close_fadd:
  assumes a: "close_to a ra ea" and b: "close_to b rb eb"
    and B: "\<bar>ra + rb\<bar> \<le> B" and lt: "B + ea + eb \<le> 2 ^ 126"
    and e: "ea + eb + (B + ea + eb) / 2 ^ 24 + 1 / 2 ^ 150 \<le> e"
  shows "close_to (fadd a b) (ra + rb) e"
proof -
  have fa: "is_finite a" and fb: "is_finite b" and da: "\<bar>valof a - ra\<bar> \<le> ea" and db: "\<bar>valof b - rb\<bar> \<le> eb"
    using a b by (simp_all add: close_to_def)
  have d: "\<bar>(valof a + valof b) - (ra + rb)\<bar> \<le> ea + eb" using da db by linarith
  then have m: "\<bar>valof a + valof b\<bar> \<le> B + ea + eb" using B by linarith
  also have "\<dots> < 2 ^ 127" using lt by simp
  finally have l: "\<bar>valof a + valof b\<bar> < 2 ^ 127" .
  have "\<bar>valof (fadd a b) - (valof a + valof b)\<bar> \<le> \<bar>valof a + valof b\<bar> / 2 ^ 24 + 1 / 2 ^ 150"
    by (rule fadd_finite(2)[OF fa fb l])
  also have "\<dots> \<le> (B + ea + eb) / 2 ^ 24 + 1 / 2 ^ 150"
    using m by (intro add_mono divide_right_mono) simp_all
  finally have "\<bar>valof (fadd a b) - (ra + rb)\<bar> \<le> e" using d e by linarith
  then show ?thesis using fadd_finite(1)[OF fa fb l] by (simp add: close_to_def)
qed

lemma product_error:
  fixes va vb ra rb :: real
  assumes da: "\<bar>va - ra\<bar> \<le> ea" and db: "\<bar>vb - rb\<bar> \<le> eb" and Ba: "\<bar>ra\<bar> \<le> Ba" and Bb: "\<bar>rb\<bar> \<le> Bb"
  shows "\<bar>va * vb - ra * rb\<bar> \<le> ea * (Bb + eb) + Ba * eb" "\<bar>va * vb\<bar> \<le> (Ba + ea) * (Bb + eb)"
proof -
  have ea: "0 \<le> ea" and eb: "0 \<le> eb" using da db by linarith+
  have Ba0: "0 \<le> Ba" and Bb0: "0 \<le> Bb" using Ba Bb by linarith+
  have vb: "\<bar>vb\<bar> \<le> Bb + eb" using db Bb by linarith
  have va: "\<bar>va\<bar> \<le> Ba + ea" using da Ba by linarith
  have "va * vb - ra * rb = (va - ra) * vb + ra * (vb - rb)" by (simp add: algebra_simps)
  also have "\<bar>\<dots>\<bar> \<le> \<bar>(va - ra) * vb\<bar> + \<bar>ra * (vb - rb)\<bar>" by (rule abs_triangle_ineq)
  also have "\<dots> \<le> ea * (Bb + eb) + Ba * eb"
    unfolding abs_mult using da vb Ba db ea eb Ba0 Bb0 by (intro add_mono mult_mono) simp_all
  finally show "\<bar>va * vb - ra * rb\<bar> \<le> ea * (Bb + eb) + Ba * eb" .
  show "\<bar>va * vb\<bar> \<le> (Ba + ea) * (Bb + eb)"
    unfolding abs_mult using va vb ea eb Ba0 Bb0 by (intro mult_mono) simp_all
qed

lemma close_fmul:
  assumes a: "close_to a ra ea" and b: "close_to b rb eb"
    and Ba: "\<bar>ra\<bar> \<le> Ba" and Bb: "\<bar>rb\<bar> \<le> Bb"
    and lt: "(Ba + ea) * (Bb + eb) \<le> 2 ^ 126"
    and e: "ea * (Bb + eb) + Ba * eb + (Ba + ea) * (Bb + eb) / 2 ^ 24 + 1 / 2 ^ 150 \<le> e"
  shows "close_to (fmul a b) (ra * rb) e"
proof -
  have fa: "is_finite a" and fb: "is_finite b" and da: "\<bar>valof a - ra\<bar> \<le> ea" and db: "\<bar>valof b - rb\<bar> \<le> eb"
    using a b by (simp_all add: close_to_def)
  note p = product_error[OF da db Ba Bb]
  have "\<bar>valof a * valof b\<bar> \<le> (Ba + ea) * (Bb + eb)" by (rule p(2))
  also have "\<dots> < 2 ^ 127" using lt by simp
  finally have l: "\<bar>valof a * valof b\<bar> < 2 ^ 127" .
  have "\<bar>valof (fmul a b) - valof a * valof b\<bar> \<le> \<bar>valof a * valof b\<bar> / 2 ^ 24 + 1 / 2 ^ 150"
    by (rule fmul_finite(2)[OF fa fb l])
  also have "\<dots> \<le> (Ba + ea) * (Bb + eb) / 2 ^ 24 + 1 / 2 ^ 150"
    using p(2) by (intro add_mono divide_right_mono) simp_all
  finally have "\<bar>valof (fmul a b) - ra * rb\<bar> \<le> e" using p(1) e by linarith
  then show ?thesis using fmul_finite(1)[OF fa fb l] by (simp add: close_to_def)
qed

lemma close_fma:
  assumes a: "close_to a ra ea" and b: "close_to b rb eb" and c: "close_to c rc ec"
    and Ba: "\<bar>ra\<bar> \<le> Ba" and Bb: "\<bar>rb\<bar> \<le> Bb" and B: "\<bar>ra * rb + rc\<bar> \<le> B"
    and lt: "B + (ea * (Bb + eb) + Ba * eb + ec) \<le> 2 ^ 126"
    and e: "(ea * (Bb + eb) + Ba * eb + ec) + (B + (ea * (Bb + eb) + Ba * eb + ec)) / 2 ^ 24 + 1 / 2 ^ 150 \<le> e"
  shows "close_to (fma a b c) (ra * rb + rc) e"
proof -
  have fa: "is_finite a" and fb: "is_finite b" and fc: "is_finite c"
    and da: "\<bar>valof a - ra\<bar> \<le> ea" and db: "\<bar>valof b - rb\<bar> \<le> eb" and dc: "\<bar>valof c - rc\<bar> \<le> ec"
    using a b c by (simp_all add: close_to_def)
  define d where "d = ea * (Bb + eb) + Ba * eb + ec"
  note p = product_error[OF da db Ba Bb]
  have dd: "\<bar>(valof a * valof b + valof c) - (ra * rb + rc)\<bar> \<le> d"
    unfolding d_def using p(1) dc by linarith
  then have m: "\<bar>valof a * valof b + valof c\<bar> \<le> B + d" using B by linarith
  also have "\<dots> < 2 ^ 127" using lt unfolding d_def by simp
  finally have l: "\<bar>valof a * valof b + valof c\<bar> < 2 ^ 127" .
  have "\<bar>valof (fma a b c) - (valof a * valof b + valof c)\<bar>
      \<le> \<bar>valof a * valof b + valof c\<bar> / 2 ^ 24 + 1 / 2 ^ 150"
    by (rule fma_finite(2)[OF fa fb fc l])
  also have "\<dots> \<le> (B + d) / 2 ^ 24 + 1 / 2 ^ 150"
    using m by (intro add_mono divide_right_mono) simp_all
  finally have "\<bar>valof (fma a b c) - (ra * rb + rc)\<bar> \<le> e" using dd e unfolding d_def by linarith
  then show ?thesis using fma_finite(1)[OF fa fb fc l] by (simp add: close_to_def)
qed

lemma horner_bound:
  fixes H m r :: real
  assumes "\<bar>H\<bar> \<le> B" "\<bar>m\<bar> \<le> 2" "\<bar>r\<bar> + 2 * B \<le> B'"
  shows "\<bar>H * m + r\<bar> \<le> B'"
proof -
  have "\<bar>H * m\<bar> \<le> B * 2" unfolding abs_mult using assms(1,2) by (intro mult_mono) auto
  then show ?thesis using assms(3) by linarith
qed

lemma horner_log2_coeffs:
  "horner x log2_coeffs =
     fadd (fmul (fadd (fmul (fadd (fmul (fadd (fmul (fadd (fmul 0xBD0D0CC5 x) 0x3EA2ECDD) x)
       0xBF9DA2C9) x) 0x4026537B) x) 0xC054BFAD) x) 0x4047691A"
  by (simp add: log2_coeffs_bits)

lemma horner_fma_log2_coeffs:
  "horner_fma x log2_coeffs =
     fma (fma (fma (fma (fma 0xBD0D0CC5 x 0x3EA2ECDD) x 0xBF9DA2C9) x 0x4026537B) x 0xC054BFAD) x
       0x4047691A"
  by (simp add: log2_coeffs_bits)

lemma log2_coeffs_finite:
  "is_finite 0x4047691A" "is_finite 0xC054BFAD" "is_finite 0x4026537B" "is_finite 0xBF9DA2C9"
  "is_finite 0x3EA2ECDD" "is_finite 0xBD0D0CC5"
  by (simp_all add: is_finite_def expo_def)

lemma lane_frac_finite: "is_finite (lane_frac x)"
  by (simp add: is_finite_def lane_frac_fields)

lemma lane_frac_close: "close_to (lane_frac x) (valof (lane_frac x)) 0"
  by (rule close_exact[OF lane_frac_finite refl])

lemma one_valof: "is_finite (float_lit 1 0)" "valof (float_lit 1 0) = 1"
proof -
  show "is_finite (float_lit 1 0)" unfolding float_lits by (simp add: is_finite_def expo_def)
  show "valof (float_lit 1 0) = 1"
    unfolding float_lits by (simp add: valof_def fp_eval cong: let_weak_cong)
qed

lemma lane_frac_minus_one: "close_to (fsub (lane_frac x) (float_lit 1 0)) (valof (lane_frac x) - 1) 0"
proof -
  have p: "(2::real) powi (- 23) = 1 / 2 ^ 23" by (simp add: power_int_minus field_simps)
  have "\<bar>valof (lane_frac x) - valof (float_lit 1 0)\<bar> = real (mant x) * 2 powi (- 23)"
    unfolding one_valof lane_frac_valof p by simp
  then have r: "representable (valof (lane_frac x) - valof (float_lit 1 0))"
    unfolding representable_def using mant_less[of x]
    by (intro exI[of _ "mant x"] exI[of _ "- 23"]) simp
  show ?thesis
    using fsub_exact[OF lane_frac_finite one_valof(1) r] by (simp add: close_to_def one_valof)
qed

lemma lane_exponent_close: "close_to (lane_exponent x) (real_of_int (int (expo x) - 127)) 0"
  by (rule close_exact[OF lane_exponent_finite lane_exponent_valof])

lemma log2_unit_interval:
  assumes "1 \<le> m" "m \<le> 2"
  shows "0 \<le> log 2 m" "log 2 m \<le> 1"
proof -
  show "0 \<le> log 2 m" using assms by simp
  have "log 2 m \<le> log 2 2" using assms by (subst log_le_cancel_iff) simp_all
  then show "log 2 m \<le> 1" by simp
qed

lemma sum_bound:
  fixes g l k :: real
  assumes "\<bar>g - l\<bar> \<le> 1" "0 \<le> l" "l \<le> 1" "\<bar>k\<bar> \<le> 128"
  shows "\<bar>k + g\<bar> \<le> 130" "\<bar>g + k\<bar> \<le> 130"
  using assms by linarith+

lemma close_to_shift:
  assumes "close_to y r e" "\<bar>g - l\<bar> \<le> d" "e + d \<le> e'"
  shows "r = k + g \<Longrightarrow> close_to y (k + l) e'" "r = g + k \<Longrightarrow> close_to y (k + l) e'"
  using assms unfolding close_to_def by (auto; linarith)+

lemma sse4_1_lane_error:
  "close_to (sse4_1_lane x) (real_of_int (int (expo x) - 127) + log 2 (valof (lane_frac x))) (68 / 10 ^ 5)"
proof -
  let ?xm = "lane_frac x" and ?m = "valof (lane_frac x)" and ?k = "real_of_int (int (expo x) - 127)"
  note m = lane_frac_range[of x]
  have m1: "1 \<le> ?m" and m2: "?m \<le> 2" using m by simp_all
  have Bm: "\<bar>?m\<bar> \<le> 2" using m by simp
  have Bd: "\<bar>?m - 1\<bar> \<le> 1" using m by simp
  have xm: "close_to ?xm ?m 0" by (rule lane_frac_close)
  have d: "close_to (fsub ?xm (float_lit 1 0)) (?m - 1) 0" by (rule lane_frac_minus_one)
  have E: "close_to (lane_exponent x) ?k 0" by (rule lane_exponent_close)
  have c0: "close_to 0x4047691A (6534285 / 2 ^ 21) 0" by (rule close_exact) (simp_all add: log2_coeffs_finite log2_coeffs_valof)
  have c1: "close_to 0xC054BFAD (- (13942701 / 2 ^ 22)) 0" by (rule close_exact) (simp_all add: log2_coeffs_finite log2_coeffs_valof)
  have c2: "close_to 0x4026537B (10900347 / 2 ^ 22) 0" by (rule close_exact) (simp_all add: log2_coeffs_finite log2_coeffs_valof)
  have c3: "close_to 0xBF9DA2C9 (- (10330825 / 2 ^ 23)) 0" by (rule close_exact) (simp_all add: log2_coeffs_finite log2_coeffs_valof)
  have c4: "close_to 0x3EA2ECDD (10677469 / 2 ^ 25) 0" by (rule close_exact) (simp_all add: log2_coeffs_finite log2_coeffs_valof)
  have c5: "close_to 0xBD0D0CC5 (- (9243845 / 2 ^ 28)) 0" by (rule close_exact) (simp_all add: log2_coeffs_finite log2_coeffs_valof)
  let ?H5 = "- (9243845 / 2 ^ 28) :: real"
  let ?h5 = "0xBD0D0CC5 :: float32"
  have B5: "\<bar>?H5\<bar> \<le> 345 / 10 ^ 4" by simp
  note h5 = c5
  let ?H4 = "?H5 * ?m + 10677469 / 2 ^ 25"
  have B4: "\<bar>?H4\<bar> \<le> 3873 / 10 ^ 4" by (rule horner_bound[OF B5 Bm]) simp
  let ?p4 = "fmul ?h5 ?xm"
  have p4: "close_to ?p4 (?H5 * ?m) (42 / 10 ^ 10)" by (rule close_fmul[OF h5 xm B5 Bm]) simp_all
  let ?h4 = "fadd ?p4 0x3EA2ECDD"
  have h4: "close_to ?h4 ?H4 (273 / 10 ^ 10)" by (rule close_fadd[OF p4 c4 B4]) simp_all
  let ?H3 = "?H4 * ?m + - (10330825 / 2 ^ 23)"
  have B3: "\<bar>?H3\<bar> \<le> 20062 / 10 ^ 4" by (rule horner_bound[OF B4 Bm]) simp
  let ?p3 = "fmul ?h4 ?xm"
  have p3: "close_to ?p3 (?H4 * ?m) (1008 / 10 ^ 10)" by (rule close_fmul[OF h4 xm B4 Bm]) simp_all
  let ?h3 = "fadd ?p3 0xBF9DA2C9"
  have h3: "close_to ?h3 ?H3 (2204 / 10 ^ 10)" by (rule close_fadd[OF p3 c3 B3]) simp_all
  let ?H2 = "?H3 * ?m + 10900347 / 2 ^ 22"
  have B2: "\<bar>?H2\<bar> \<le> 66113 / 10 ^ 4" by (rule horner_bound[OF B3 Bm]) simp
  let ?p2 = "fmul ?h3 ?xm"
  have p2: "close_to ?p2 (?H3 * ?m) (68 / 10 ^ 8)" by (rule close_fmul[OF h3 xm B3 Bm]) simp_all
  let ?h2 = "fadd ?p2 0x4026537B"
  have h2: "close_to ?h2 ?H2 (10741 / 10 ^ 10)" by (rule close_fadd[OF p2 c2 B2]) simp_all
  let ?H1 = "?H2 * ?m + - (13942701 / 2 ^ 22)"
  have B1: "\<bar>?H1\<bar> \<le> 165468 / 10 ^ 4" by (rule horner_bound[OF B2 Bm]) simp
  let ?p1 = "fmul ?h2 ?xm"
  have p1: "close_to ?p1 (?H2 * ?m) (29364 / 10 ^ 10)" by (rule close_fmul[OF h2 xm B2 Bm]) simp_all
  let ?h1 = "fadd ?p1 0xC054BFAD"
  have h1: "close_to ?h1 ?H1 (39227 / 10 ^ 10)" by (rule close_fadd[OF p1 c1 B1]) simp_all
  let ?H0 = "?H1 * ?m + 6534285 / 2 ^ 21"
  have B0: "\<bar>?H0\<bar> \<le> 362094 / 10 ^ 4" by (rule horner_bound[OF B1 Bm]) simp
  let ?p0 = "fmul ?h1 ?xm"
  have p0: "close_to ?p0 (?H1 * ?m) (9818 / 10 ^ 9)" by (rule close_fmul[OF h1 xm B1 Bm]) simp_all
  let ?h0 = "fadd ?p0 0x4047691A"
  have h0: "close_to ?h0 ?H0 (119763 / 10 ^ 10)" by (rule close_fadd[OF p0 c0 B0]) simp_all
  have P: "?H0 = peval log2_poly ?m" unfolding log2_poly_eq by (simp add: algebra_simps)
  have ap: "\<bar>?H0 * (?m - 1) - log 2 ?m\<bar> \<le> 652 / 10 ^ 6 * (?m - 1)"
    unfolding P by (rule log2_poly_approx[OF m1 m2])
  have lg: "0 \<le> log 2 ?m" "log 2 ?m \<le> 1" using m1 m2 by (auto intro: log2_unit_interval)
  have sm: "652 / 10 ^ 6 * (?m - 1) \<le> 652 / 10 ^ 6" using m2 by simp
  note ap0 = order_trans[OF ap sm]
  have ap1: "\<bar>?H0 * (?m - 1) - log 2 ?m\<bar> \<le> 1" by (rule order_trans[OF ap0]) simp
  have k: "\<bar>?k\<bar> \<le> 128" using expo_less[of x] by simp
  have t: "close_to (fmul ?h0 (fsub ?xm (float_lit 1 0))) (?H0 * (?m - 1)) (141346 / 10 ^ 10)"
    by (rule close_fmul[OF h0 d B0 Bd]) simp_all
  have Bs: "\<bar>?k + ?H0 * (?m - 1)\<bar> \<le> 130" by (rule sum_bound(1)[OF ap1 lg k])
  have o: "close_to (fadd (lane_exponent x) (fmul ?h0 (fsub ?xm (float_lit 1 0)))) (?k + ?H0 * (?m - 1)) (218833 / 10 ^ 10)"
    by (rule close_fadd[OF E t Bs]) simp_all
  have l: "sse4_1_lane x = fadd (lane_exponent x) (fmul ?h0 (fsub ?xm (float_lit 1 0)))"
    unfolding sse4_1_lane_def horner_log2_coeffs ..
  show ?thesis
    unfolding l by (rule close_to_shift(1)[OF o ap0 _ refl]) simp
qed

lemma avx2_fma_lane_error:
  "close_to (avx2_fma_lane x) (real_of_int (int (expo x) - 127) + log 2 (valof (lane_frac x))) (67 / 10 ^ 5)"
proof -
  let ?xm = "lane_frac x" and ?m = "valof (lane_frac x)" and ?k = "real_of_int (int (expo x) - 127)"
  note m = lane_frac_range[of x]
  have m1: "1 \<le> ?m" and m2: "?m \<le> 2" using m by simp_all
  have Bm: "\<bar>?m\<bar> \<le> 2" using m by simp
  have Bd: "\<bar>?m - 1\<bar> \<le> 1" using m by simp
  have xm: "close_to ?xm ?m 0" by (rule lane_frac_close)
  have d: "close_to (fsub ?xm (float_lit 1 0)) (?m - 1) 0" by (rule lane_frac_minus_one)
  have E: "close_to (lane_exponent x) ?k 0" by (rule lane_exponent_close)
  have c0: "close_to 0x4047691A (6534285 / 2 ^ 21) 0" by (rule close_exact) (simp_all add: log2_coeffs_finite log2_coeffs_valof)
  have c1: "close_to 0xC054BFAD (- (13942701 / 2 ^ 22)) 0" by (rule close_exact) (simp_all add: log2_coeffs_finite log2_coeffs_valof)
  have c2: "close_to 0x4026537B (10900347 / 2 ^ 22) 0" by (rule close_exact) (simp_all add: log2_coeffs_finite log2_coeffs_valof)
  have c3: "close_to 0xBF9DA2C9 (- (10330825 / 2 ^ 23)) 0" by (rule close_exact) (simp_all add: log2_coeffs_finite log2_coeffs_valof)
  have c4: "close_to 0x3EA2ECDD (10677469 / 2 ^ 25) 0" by (rule close_exact) (simp_all add: log2_coeffs_finite log2_coeffs_valof)
  have c5: "close_to 0xBD0D0CC5 (- (9243845 / 2 ^ 28)) 0" by (rule close_exact) (simp_all add: log2_coeffs_finite log2_coeffs_valof)
  let ?H5 = "- (9243845 / 2 ^ 28) :: real"
  let ?h5 = "0xBD0D0CC5 :: float32"
  have B5: "\<bar>?H5\<bar> \<le> 345 / 10 ^ 4" by simp
  note h5 = c5
  let ?H4 = "?H5 * ?m + 10677469 / 2 ^ 25"
  have B4: "\<bar>?H4\<bar> \<le> 3873 / 10 ^ 4" by (rule horner_bound[OF B5 Bm]) simp
  let ?h4 = "fma ?h5 ?xm 0x3EA2ECDD"
  have h4: "close_to ?h4 ?H4 (231 / 10 ^ 10)" by (rule close_fma[OF h5 xm c4 B5 Bm B4]) simp_all
  let ?H3 = "?H4 * ?m + - (10330825 / 2 ^ 23)"
  have B3: "\<bar>?H3\<bar> \<le> 20062 / 10 ^ 4" by (rule horner_bound[OF B4 Bm]) simp
  let ?h3 = "fma ?h4 ?xm 0xBF9DA2C9"
  have h3: "close_to ?h3 ?H3 (1658 / 10 ^ 10)" by (rule close_fma[OF h4 xm c3 B4 Bm B3]) simp_all
  let ?H2 = "?H3 * ?m + 10900347 / 2 ^ 22"
  have B2: "\<bar>?H2\<bar> \<le> 66113 / 10 ^ 4" by (rule horner_bound[OF B3 Bm]) simp
  let ?h2 = "fma ?h3 ?xm 0x4026537B"
  have h2: "close_to ?h2 ?H2 (7257 / 10 ^ 10)" by (rule close_fma[OF h3 xm c2 B3 Bm B2]) simp_all
  let ?H1 = "?H2 * ?m + - (13942701 / 2 ^ 22)"
  have B1: "\<bar>?H1\<bar> \<le> 165468 / 10 ^ 4" by (rule horner_bound[OF B2 Bm]) simp
  let ?h1 = "fma ?h2 ?xm 0xC054BFAD"
  have h1: "close_to ?h1 ?H1 (24377 / 10 ^ 10)" by (rule close_fma[OF h2 xm c1 B2 Bm B1]) simp_all
  let ?H0 = "?H1 * ?m + 6534285 / 2 ^ 21"
  have B0: "\<bar>?H0\<bar> \<le> 362094 / 10 ^ 4" by (rule horner_bound[OF B1 Bm]) simp
  let ?h0 = "fma ?h1 ?xm 0x4047691A"
  have h0: "close_to ?h0 ?H0 (70337 / 10 ^ 10)" by (rule close_fma[OF h1 xm c0 B1 Bm B0]) simp_all
  have P: "?H0 = peval log2_poly ?m" unfolding log2_poly_eq by (simp add: algebra_simps)
  have ap: "\<bar>?H0 * (?m - 1) - log 2 ?m\<bar> \<le> 652 / 10 ^ 6 * (?m - 1)"
    unfolding P by (rule log2_poly_approx[OF m1 m2])
  have lg: "0 \<le> log 2 ?m" "log 2 ?m \<le> 1" using m1 m2 by (auto intro: log2_unit_interval)
  have sm: "652 / 10 ^ 6 * (?m - 1) \<le> 652 / 10 ^ 6" using m2 by simp
  note ap0 = order_trans[OF ap sm]
  have ap1: "\<bar>?H0 * (?m - 1) - log 2 ?m\<bar> \<le> 1" by (rule order_trans[OF ap0]) simp
  have k: "\<bar>?k\<bar> \<le> 128" using expo_less[of x] by simp
  have Bs: "\<bar>?H0 * (?m - 1) + ?k\<bar> \<le> 130" by (rule sum_bound(2)[OF ap1 lg k])
  have o: "close_to (fma ?h0 (fsub ?xm (float_lit 1 0)) (lane_exponent x)) (?H0 * (?m - 1) + ?k) (147824 / 10 ^ 10)"
    by (rule close_fma[OF h0 d E B0 Bd Bs]) simp_all
  have l: "avx2_fma_lane x = fma ?h0 (fsub ?xm (float_lit 1 0)) (lane_exponent x)"
    unfolding avx2_fma_lane_def horner_fma_log2_coeffs ..
  show ?thesis
    unfolding l by (rule close_to_shift(2)[OF o ap0 _ refl]) simp
qed

lemma neon_significand_sint:
  "sint (0x000800000 OR (x AND 0x007fffff) :: 32 word) = 2 ^ 23 + int (mant x)"
proof -
  have a: "(0x800000 :: 32 word) = push_bit 23 1" by simp
  have b: "(0x7FFFFF :: 32 word) = mask 23" by (simp add: mask_eq_exp_minus_1)
  have "push_bit 23 (1 :: 32 word) + (x AND mask 23) = push_bit 23 1 OR (x AND mask 23)"
  proof (rule disjunctive_add)
    fix n
    show "\<not> bit (push_bit 23 (1 :: 32 word)) n \<or> \<not> bit (x AND mask 23) n"
      unfolding bit_push_bit_iff bit_and_iff bit_mask_iff by auto
  qed
  then have o: "(0x800000 :: 32 word) OR (x AND 0x7FFFFF) = 0x800000 + (x AND 0x7FFFFF)"
    unfolding a[symmetric] b[symmetric] by simp
  have w: "(0x800000 :: 32 word) + (x AND 0x7FFFFF) = word_of_int (2 ^ 23 + int (mant x))"
    unfolding word_mant[symmetric] by simp
  have s: "sint (word_of_int k :: 32 word) = signed_take_bit 31 k" for k
    by (simp add: signed_of_int)
  have "signed_take_bit 31 (2 ^ 23 + int (mant x)) = 2 ^ 23 + int (mant x)"
    using mant_less[of x] by (intro signed_take_bit_int_eq_self) auto
  then show ?thesis unfolding o w s .
qed

lemma neon_significand_close:
  "close_to (round32 (sint (0x000800000 OR (x AND 0x007fffff) :: 32 word) < 0)
               (nat \<bar>sint (0x000800000 OR (x AND 0x007fffff) :: 32 word)\<bar>) (2 ^ 23))
     (valof (lane_frac x)) 0"
proof -
  define r where "r = 2 ^ 23 + int (mant x)"
  have r0: "r \<noteq> 0" unfolding r_def by simp
  have p: "(2::real) powi (- 23) = 1 / 2 ^ 23" by (simp add: power_int_minus field_simps)
  have "\<bar>real_of_int r / 2 ^ 23\<bar> = real (2 ^ 23 + mant x) * 2 powi (- 23)"
    unfolding r_def p by simp
  then have rep: "representable (real_of_int r / 2 ^ 23)"
    unfolding representable_def using mant_less[of x]
    by (intro exI[of _ "2 ^ 23 + mant x"] exI[of _ "- 23"]) simp
  have v: "real_of_int r / 2 ^ 23 = valof (lane_frac x)"
    unfolding r_def lane_frac_valof by (simp add: field_simps)
  show ?thesis
    unfolding neon_significand_sint r_def[symmetric]
    using round_int_exact[OF r0 rep] unfolding v by (simp add: close_to_def)
qed

lemma abs_mult_bound:
  fixes a b :: real
  assumes "\<bar>a\<bar> \<le> A" "\<bar>b\<bar> \<le> B" "A * B \<le> C"
  shows "\<bar>a * b\<bar> \<le> C"
proof -
  have "\<bar>a * b\<bar> \<le> A * B" unfolding abs_mult using assms(1,2) by (intro mult_mono) auto
  then show ?thesis using assms(3) by simp
qed

lemma abs_add_bound:
  fixes a b :: real
  assumes "\<bar>a\<bar> \<le> A" "\<bar>b\<bar> \<le> B" "A + B \<le> C"
  shows "\<bar>a + b\<bar> \<le> C"
  using assms by linarith

lemma neon_lane_error:
  "close_to (neon_lane x) (real_of_int (int (expo x) - 127) + log 2 (valof (lane_frac x))) (35 / 10 ^ 5)"
proof -
  let ?m = "valof (lane_frac x)" and ?k = "real_of_int (int (expo x) - 127)"
  let ?s = "round32 (sint (0x000800000 OR (x AND 0x007fffff) :: 32 word) < 0) (nat \<bar>sint (0x000800000 OR (x AND 0x007fffff) :: 32 word)\<bar>) (2 ^ 23)"
  note m = lane_frac_range[of x]
  have m1: "1 \<le> ?m" and m2: "?m \<le> 2" using m by simp_all
  have M1: "\<bar>?m\<bar> \<le> 2" using m by simp
  have s1: "close_to ?s ?m 0" by (rule neon_significand_close)
  have E: "close_to (lane_exponent x) ?k 0" by (rule lane_exponent_close)
  have k: "\<bar>?k\<bar> \<le> 128" using expo_less[of x] by simp
  have c0: "close_to 0xC0429005 (- (12750853 / 2 ^ 22)) 0" by (rule close_exact) (simp_all add: neon_coeffs_finite neon_coeffs_valof)
  have c1: "close_to 0x40C39D65 (12819813 / 2 ^ 21) 0" by (rule close_exact) (simp_all add: neon_coeffs_finite neon_coeffs_valof)
  have c2: "close_to 0xC0AAF193 (- (11202963 / 2 ^ 21)) 0" by (rule close_exact) (simp_all add: neon_coeffs_finite neon_coeffs_valof)
  have c3: "close_to 0x4052567D (13784701 / 2 ^ 22) 0" by (rule close_exact) (simp_all add: neon_coeffs_finite neon_coeffs_valof)
  have c4: "close_to 0xBFA22A61 (- (10627681 / 2 ^ 23)) 0" by (rule close_exact) (simp_all add: neon_coeffs_finite neon_coeffs_valof)
  have c5: "close_to 0x3E8CE04D (9232461 / 2 ^ 25) 0" by (rule close_exact) (simp_all add: neon_coeffs_finite neon_coeffs_valof)
  have c6: "close_to 0xBCD2761E (- (6896399 / 2 ^ 28)) 0" by (rule close_exact) (simp_all add: neon_coeffs_finite neon_coeffs_valof)
  have Q0: "\<bar>- (12750853 / 2 ^ 22) :: real\<bar> \<le> 30401 / 10 ^ 4" by simp
  have Q1: "\<bar>12819813 / 2 ^ 21 :: real\<bar> \<le> 6113 / 10 ^ 3" by simp
  have Q2: "\<bar>- (11202963 / 2 ^ 21) :: real\<bar> \<le> 5342 / 10 ^ 3" by simp
  have Q3: "\<bar>13784701 / 2 ^ 22 :: real\<bar> \<le> 32866 / 10 ^ 4" by simp
  have Q4: "\<bar>- (10627681 / 2 ^ 23) :: real\<bar> \<le> 1267 / 10 ^ 3" by simp
  have Q5: "\<bar>9232461 / 2 ^ 25 :: real\<bar> \<le> 2752 / 10 ^ 4" by simp
  have Q6: "\<bar>- (6896399 / 2 ^ 28) :: real\<bar> \<le> 257 / 10 ^ 4" by simp
  let ?M1 = "?m" and ?s1 = "?s"
  let ?M2 = "?M1 * ?M1" and ?s2 = "fmul ?s1 ?s1"
  have M2: "\<bar>?M2\<bar> \<le> 4" by (rule abs_mult_bound[OF M1 M1]) simp
  have s2: "close_to ?s2 ?M2 (2385 / 10 ^ 10)" by (rule close_fmul[OF s1 s1 M1 M1]) simp_all
  let ?M3 = "?M2 * ?M1" and ?s3 = "fmul ?s2 ?s1"
  have M3: "\<bar>?M3\<bar> \<le> 8" by (rule abs_mult_bound[OF M2 M1]) simp
  have s3: "close_to ?s3 ?M3 (9539 / 10 ^ 10)" by (rule close_fmul[OF s2 s1 M2 M1]) simp_all
  let ?M4 = "?M2 * ?M2" and ?s4 = "fmul ?s2 ?s2"
  have M4: "\<bar>?M4\<bar> \<le> 16" by (rule abs_mult_bound[OF M2 M2]) simp
  have s4: "close_to ?s4 ?M4 (28617 / 10 ^ 10)" by (rule close_fmul[OF s2 s2 M2 M2]) simp_all
  let ?M5 = "?M3 * ?M2" and ?s5 = "fmul ?s3 ?s2"
  have M5: "\<bar>?M5\<bar> \<le> 32" by (rule abs_mult_bound[OF M3 M2]) simp
  have s5: "close_to ?s5 ?M5 (7631 / 10 ^ 9)" by (rule close_fmul[OF s3 s2 M3 M2]) simp_all
  let ?M6 = "?M3 * ?M3" and ?s6 = "fmul ?s3 ?s3"
  have M6: "\<bar>?M6\<bar> \<le> 64" by (rule abs_mult_bound[OF M3 M3]) simp
  have s6: "close_to ?s6 ?M6 (190771 / 10 ^ 10)" by (rule close_fmul[OF s3 s3 M3 M3]) simp_all
  let ?T1 = "?M1 * (12819813 / 2 ^ 21)" and ?t1 = "fmul ?s1 0x40C39D65"
  have T1: "\<bar>?T1\<bar> \<le> 12226 / 10 ^ 3" by (rule abs_mult_bound[OF M1 Q1]) simp
  have t1: "close_to ?t1 ?T1 (7288 / 10 ^ 10)" by (rule close_fmul[OF s1 c1 M1 Q1]) simp_all
  let ?T2 = "?M2 * (- (11202963 / 2 ^ 21))" and ?t2 = "fmul ?s2 0xC0AAF193"
  have T2: "\<bar>?T2\<bar> \<le> 21368 / 10 ^ 3" by (rule abs_mult_bound[OF M2 Q2]) simp
  have t2: "close_to ?t2 ?T2 (25477 / 10 ^ 10)" by (rule close_fmul[OF s2 c2 M2 Q2]) simp_all
  let ?T3 = "?M3 * (13784701 / 2 ^ 22)" and ?t3 = "fmul ?s3 0x4052567D"
  have T3: "\<bar>?T3\<bar> \<le> 262928 / 10 ^ 4" by (rule abs_mult_bound[OF M3 Q3]) simp
  have t3: "close_to ?t3 ?T3 (47023 / 10 ^ 10)" by (rule close_fmul[OF s3 c3 M3 Q3]) simp_all
  let ?T4 = "?M4 * (- (10627681 / 2 ^ 23))" and ?t4 = "fmul ?s4 0xBFA22A61"
  have T4: "\<bar>?T4\<bar> \<le> 20272 / 10 ^ 3" by (rule abs_mult_bound[OF M4 Q4]) simp
  have t4: "close_to ?t4 ?T4 (48341 / 10 ^ 10)" by (rule close_fmul[OF s4 c4 M4 Q4]) simp_all
  let ?T5 = "?M5 * (9232461 / 2 ^ 25)" and ?t5 = "fmul ?s5 0x3E8CE04D"
  have T5: "\<bar>?T5\<bar> \<le> 88064 / 10 ^ 4" by (rule abs_mult_bound[OF M5 Q5]) simp
  have t5: "close_to ?t5 ?T5 (2625 / 10 ^ 9)" by (rule close_fmul[OF s5 c5 M5 Q5]) simp_all
  let ?T6 = "?M6 * (- (6896399 / 2 ^ 28))" and ?t6 = "fmul ?s6 0xBCD2761E"
  have T6: "\<bar>?T6\<bar> \<le> 16448 / 10 ^ 4" by (rule abs_mult_bound[OF M6 Q6]) simp
  have t6: "close_to ?t6 ?T6 (5884 / 10 ^ 10)" by (rule close_fmul[OF s6 c6 M6 Q6]) simp_all
  let ?A0 = "?k + (- (12750853 / 2 ^ 22))" and ?a0 = "fadd (lane_exponent x) 0xC0429005"
  have A0: "\<bar>?A0\<bar> \<le> 1310401 / 10 ^ 4" by (rule abs_add_bound[OF k Q0]) simp
  have a0: "close_to ?a0 ?A0 (78106 / 10 ^ 10)" by (rule close_fadd[OF E c0 A0]) simp_all
  let ?A1 = "?A0 + ?T1" and ?a1 = "fadd ?a0 ?t1"
  have A1: "\<bar>?A1\<bar> \<le> 1432661 / 10 ^ 4" by (rule abs_add_bound[OF A0 T1]) simp
  have a1: "close_to ?a1 ?A1 (170788 / 10 ^ 10)" by (rule close_fadd[OF a0 t1 A1]) simp_all
  let ?A2 = "?A1 + ?T2" and ?a2 = "fadd ?a1 ?t2"
  have A2: "\<bar>?A2\<bar> \<le> 1646341 / 10 ^ 4" by (rule abs_add_bound[OF A1 T2]) simp
  have a2: "close_to ?a2 ?A2 (294395 / 10 ^ 10)" by (rule close_fadd[OF a1 t2 A2]) simp_all
  let ?A3 = "?A2 + ?T3" and ?a3 = "fadd ?a2 ?t3"
  have A3: "\<bar>?A3\<bar> \<le> 1909269 / 10 ^ 4" by (rule abs_add_bound[OF A2 T3]) simp
  have a3: "close_to ?a3 ?A3 (45522 / 10 ^ 9)" by (rule close_fadd[OF a2 t3 A3]) simp_all
  let ?A4 = "?A3 + ?T4" and ?a4 = "fadd ?a3 ?t4"
  have A4: "\<bar>?A4\<bar> \<le> 2111989 / 10 ^ 4" by (rule abs_add_bound[OF A3 T4]) simp
  have a4: "close_to ?a4 ?A4 (629446 / 10 ^ 10)" by (rule close_fadd[OF a3 t4 A4]) simp_all
  let ?A5 = "?A4 + ?T5" and ?a5 = "fadd ?a4 ?t5"
  have A5: "\<bar>?A5\<bar> \<le> 2200053 / 10 ^ 4" by (rule abs_add_bound[OF A4 T5]) simp
  have a5: "close_to ?a5 ?A5 (78683 / 10 ^ 9)" by (rule close_fadd[OF a4 t5 A5]) simp_all
  let ?A6 = "?A5 + ?T6" and ?a6 = "fadd ?a5 ?t6"
  have A6: "\<bar>?A6\<bar> \<le> 2216501 / 10 ^ 4" by (rule abs_add_bound[OF A5 T6]) simp
  have a6: "close_to ?a6 ?A6 (924828 / 10 ^ 10)" by (rule close_fadd[OF a5 t6 A6]) simp_all
  have P: "?A6 = ?k + peval neon_poly ?m" unfolding neon_poly_eq by (simp add: algebra_simps)
  have ap: "\<bar>peval neon_poly ?m - log 2 ?m\<bar> \<le> 569 / 2 ^ 28 + 252 / 10 ^ 6 * (?m - 1)"
    by (rule neon_poly_approx[OF m1 m2])
  have sm: "569 / 2 ^ 28 + 252 / 10 ^ 6 * (?m - 1) \<le> 569 / 2 ^ 28 + 252 / 10 ^ 6" using m2 by simp
  note ap0 = order_trans[OF ap sm]
  have l: "neon_lane x = ?a6"
    unfolding neon_lane_def Let_def neon_exponent neon_coeffs_bits ..
  show ?thesis
    unfolding l by (rule close_to_shift(1)[OF a6 ap0 _ P]) simp
qed

section \<open>The error of the kernels\<close>

lemma log2_powi: "log 2 (2 powi k) = real_of_int k"
proof -
  have "(2::real) powi k = 2 powr real_of_int k" by (rule powr_real_of_int'[symmetric]) simp_all
  then show ?thesis by simp
qed

lemma log2_normal:
  assumes "is_normal x"
  shows "log 2 \<bar>valof x\<bar> = real_of_int (int (expo x) - 127) + log 2 (valof (lane_frac x))"
proof -
  have m: "0 < valof (lane_frac x)" using lane_frac_range(1)[of x] by simp
  have p: "(0::real) < 2 powi (int (expo x) - 127)" by simp
  show ?thesis
    unfolding normal_decomposition[OF assms] spec_significand_eq log_mult_pos[OF p m] log2_powi ..
qed

lemma positive_not_signed: "0 < valof x \<Longrightarrow> \<not> sign_of x \<and> scaled x \<noteq> 0"
proof -
  assume "0 < valof x"
  then have "0 < scaled x" by (simp add: valof_def)
  then show ?thesis using scaled_sign[of x] by auto
qed

lemma scalars_at_positive:
  assumes "is_finite x" "0 < valof x" "is_finite (lm x)"
  shows "log2f_non_ieee lm x = lm x" "u_scalar lm x = lm x"
proof -
  have l: "log2f lm x = lm x"
    using finite_not_special[OF assms(1)] positive_not_signed[OF assms(2)] by (simp add: log2f_def)
  have i: "\<not> isinf (lm x)" using finite_not_special[OF assms(3)] by (simp add: isinf_def)
  show "log2f_non_ieee lm x = lm x" "u_scalar lm x = lm x"
    using i by (simp_all add: log2f_non_ieee_def u_scalar_def l)
qed

lemma avx2_lane_error:
  "close_to (avx2_lane x) (real_of_int (int (expo x) - 127) + log 2 (valof (lane_frac x))) (68 / 10 ^ 5)"
  using sse4_1_lane_error[of x] by (simp add: sse4_1_lane_spec avx2_lane_spec)

lemma sweep_bounds:
  assumes N: "N \<le> length a" "i < N"
    and lane: "close_to (lane (a ! i)) r e"
    and scalar: "scalar (a ! i) = y" "\<bar>valof y - t\<bar> \<le> tol"
    and n: "is_normal (a ! i) \<longrightarrow> r = t"
  shows "(i < N div W * W \<and> is_normal (a ! i) \<longrightarrow>
           \<bar>valof (cells (sweep W lane scalar b a N) ! i) - t\<bar> \<le> e)
       \<and> (i < N div W * W \<longrightarrow> \<bar>valof (cells (sweep W lane scalar b a N) ! i) - r\<bar> \<le> e)
       \<and> (N div W * W \<le> i \<longrightarrow> \<bar>valof (cells (sweep W lane scalar b a N) ! i) - t\<bar> \<le> tol)"
  unfolding sweep_nth[OF N] using lane scalar n by (auto simp: close_to_def)

text \<open>
  Claim C1, as amended. Let \<open>x\<close> be a finite positive input element and let the platform
  logarithm return for \<open>x\<close> a finite value within \<open>tol\<close> of \<open>log\<^sub>2 x\<close>. The scalar kernels store
  a value within \<open>tol\<close> of \<open>log\<^sub>2 x\<close>, whether \<open>x\<close> is normal or subnormal, and so does every
  vector kernel for an element of its scalar tail. For a normal \<open>x\<close> in the vector-processed
  part the stored value is within \<open>6.8 \<sqdot> 10\<^sup>-\<^sup>4\<close> of \<open>log\<^sub>2 x\<close> (SSE4.1 and AVX2), \<open>6.7 \<sqdot> 10\<^sup>-\<^sup>4\<close>
  (AVX2 with fused multiply-add) or \<open>3.5 \<sqdot> 10\<^sup>-\<^sup>4\<close> (NEON), in absolute terms. For every \<open>x\<close>
  in the vector-processed part, subnormals included, the stored value is within the same
  bound of \<open>E + log\<^sub>2 (1 + f / 2\<^sup>2\<^sup>3)\<close>, where \<open>E\<close> is the biased exponent field minus 127 and
  \<open>f\<close> the significand field: a subnormal is treated as if it were \<open>2\<^sup>-\<^sup>1\<^sup>2\<^sup>7 (1 + f / 2\<^sup>2\<^sup>3)\<close>.
\<close>

theorem log2_error_bound:
  assumes "N \<le> length a" "N \<le> length b" "i < N"
    and "is_finite (a ! i)" "0 < valof (a ! i)"
    and "is_finite (lm (a ! i))" "\<bar>valof (lm (a ! i)) - log 2 (valof (a ! i))\<bar> \<le> tol"
  shows "\<bar>valof (cells (volk_32f_log2_32f_generic lm a 0 0 N (fresh b)) ! i) - log 2 (valof (a ! i))\<bar> \<le> tol
    \<and> \<bar>valof (cells (volk_32f_log2_32f_u_generic lm a 0 0 N (fresh b)) ! i) - log 2 (valof (a ! i))\<bar> \<le> tol
    \<and> ((i < N div 4 * 4 \<and> is_normal (a ! i) \<longrightarrow>
           \<bar>valof (cells (volk_32f_log2_32f_a_sse4_1 lm b a N) ! i) - log 2 (valof (a ! i))\<bar> \<le> 68 / 10 ^ 5)
       \<and> (i < N div 4 * 4 \<longrightarrow>
           \<bar>valof (cells (volk_32f_log2_32f_a_sse4_1 lm b a N) ! i)
             - (real_of_int (int (expo (a ! i)) - 127) + log 2 (1 + real (mant (a ! i)) / 2 ^ 23))\<bar>
             \<le> 68 / 10 ^ 5)
       \<and> (N div 4 * 4 \<le> i \<longrightarrow>
           \<bar>valof (cells (volk_32f_log2_32f_a_sse4_1 lm b a N) ! i) - log 2 (valof (a ! i))\<bar> \<le> tol))
    \<and> ((i < N div 4 * 4 \<and> is_normal (a ! i) \<longrightarrow>
           \<bar>valof (cells (volk_32f_log2_32f_u_sse4_1 lm b a N) ! i) - log 2 (valof (a ! i))\<bar> \<le> 68 / 10 ^ 5)
       \<and> (i < N div 4 * 4 \<longrightarrow>
           \<bar>valof (cells (volk_32f_log2_32f_u_sse4_1 lm b a N) ! i)
             - (real_of_int (int (expo (a ! i)) - 127) + log 2 (1 + real (mant (a ! i)) / 2 ^ 23))\<bar>
             \<le> 68 / 10 ^ 5)
       \<and> (N div 4 * 4 \<le> i \<longrightarrow>
           \<bar>valof (cells (volk_32f_log2_32f_u_sse4_1 lm b a N) ! i) - log 2 (valof (a ! i))\<bar> \<le> tol))
    \<and> ((i < N div 8 * 8 \<and> is_normal (a ! i) \<longrightarrow>
           \<bar>valof (cells (volk_32f_log2_32f_a_avx2 lm b a N) ! i) - log 2 (valof (a ! i))\<bar> \<le> 68 / 10 ^ 5)
       \<and> (i < N div 8 * 8 \<longrightarrow>
           \<bar>valof (cells (volk_32f_log2_32f_a_avx2 lm b a N) ! i)
             - (real_of_int (int (expo (a ! i)) - 127) + log 2 (1 + real (mant (a ! i)) / 2 ^ 23))\<bar>
             \<le> 68 / 10 ^ 5)
       \<and> (N div 8 * 8 \<le> i \<longrightarrow>
           \<bar>valof (cells (volk_32f_log2_32f_a_avx2 lm b a N) ! i) - log 2 (valof (a ! i))\<bar> \<le> tol))
    \<and> ((i < N div 8 * 8 \<and> is_normal (a ! i) \<longrightarrow>
           \<bar>valof (cells (volk_32f_log2_32f_u_avx2 lm b a N) ! i) - log 2 (valof (a ! i))\<bar> \<le> 68 / 10 ^ 5)
       \<and> (i < N div 8 * 8 \<longrightarrow>
           \<bar>valof (cells (volk_32f_log2_32f_u_avx2 lm b a N) ! i)
             - (real_of_int (int (expo (a ! i)) - 127) + log 2 (1 + real (mant (a ! i)) / 2 ^ 23))\<bar>
             \<le> 68 / 10 ^ 5)
       \<and> (N div 8 * 8 \<le> i \<longrightarrow>
           \<bar>valof (cells (volk_32f_log2_32f_u_avx2 lm b a N) ! i) - log 2 (valof (a ! i))\<bar> \<le> tol))
    \<and> ((i < N div 8 * 8 \<and> is_normal (a ! i) \<longrightarrow>
           \<bar>valof (cells (volk_32f_log2_32f_a_avx2_fma lm b a N) ! i) - log 2 (valof (a ! i))\<bar> \<le> 67 / 10 ^ 5)
       \<and> (i < N div 8 * 8 \<longrightarrow>
           \<bar>valof (cells (volk_32f_log2_32f_a_avx2_fma lm b a N) ! i)
             - (real_of_int (int (expo (a ! i)) - 127) + log 2 (1 + real (mant (a ! i)) / 2 ^ 23))\<bar>
             \<le> 67 / 10 ^ 5)
       \<and> (N div 8 * 8 \<le> i \<longrightarrow>
           \<bar>valof (cells (volk_32f_log2_32f_a_avx2_fma lm b a N) ! i) - log 2 (valof (a ! i))\<bar> \<le> tol))
    \<and> ((i < N div 8 * 8 \<and> is_normal (a ! i) \<longrightarrow>
           \<bar>valof (cells (volk_32f_log2_32f_u_avx2_fma lm b a N) ! i) - log 2 (valof (a ! i))\<bar> \<le> 67 / 10 ^ 5)
       \<and> (i < N div 8 * 8 \<longrightarrow>
           \<bar>valof (cells (volk_32f_log2_32f_u_avx2_fma lm b a N) ! i)
             - (real_of_int (int (expo (a ! i)) - 127) + log 2 (1 + real (mant (a ! i)) / 2 ^ 23))\<bar>
             \<le> 67 / 10 ^ 5)
       \<and> (N div 8 * 8 \<le> i \<longrightarrow>
           \<bar>valof (cells (volk_32f_log2_32f_u_avx2_fma lm b a N) ! i) - log 2 (valof (a ! i))\<bar> \<le> tol))
    \<and> ((i < N div 4 * 4 \<and> is_normal (a ! i) \<longrightarrow>
           \<bar>valof (cells (volk_32f_log2_32f_neon lm b a N) ! i) - log 2 (valof (a ! i))\<bar> \<le> 35 / 10 ^ 5)
       \<and> (i < N div 4 * 4 \<longrightarrow>
           \<bar>valof (cells (volk_32f_log2_32f_neon lm b a N) ! i)
             - (real_of_int (int (expo (a ! i)) - 127) + log 2 (1 + real (mant (a ! i)) / 2 ^ 23))\<bar>
             \<le> 35 / 10 ^ 5)
       \<and> (N div 4 * 4 \<le> i \<longrightarrow>
           \<bar>valof (cells (volk_32f_log2_32f_neon lm b a N) ! i) - log 2 (valof (a ! i))\<bar> \<le> tol))"
proof -
  define t where "t = log 2 (valof (a ! i))"
  define r where "r = real_of_int (int (expo (a ! i)) - 127) + log 2 (1 + real (mant (a ! i)) / 2 ^ 23)"
  note fx = assms(4) and px = assms(5) and fl = assms(6)
  have l: "\<bar>valof (lm (a ! i)) - t\<bar> \<le> tol" using assms(7) unfolding t_def .
  have sc: "log2f_non_ieee lm (a ! i) = lm (a ! i)" "u_scalar lm (a ! i) = lm (a ! i)"
    by (rule scalars_at_positive[where lm = lm and x = "a ! i", OF fx px fl])+
  have n: "is_normal (a ! i) \<longrightarrow> r = t"
  proof
    assume "is_normal (a ! i)"
    then have "log 2 \<bar>valof (a ! i)\<bar> = r"
      unfolding r_def lane_frac_valof[symmetric] by (rule log2_normal)
    then show "r = t" using px unfolding t_def by simp
  qed
  have lanes: "close_to (sse4_1_lane (a ! i)) r (68 / 10 ^ 5)"
    "close_to (avx2_lane (a ! i)) r (68 / 10 ^ 5)"
    "close_to (avx2_fma_lane (a ! i)) r (67 / 10 ^ 5)"
    "close_to (neon_lane (a ! i)) r (35 / 10 ^ 5)"
    unfolding r_def lane_frac_valof[symmetric]
    by (rule sse4_1_lane_error avx2_lane_error avx2_fma_lane_error neon_lane_error)+
  have g: "cells (volk_32f_log2_32f_generic lm a 0 0 N (fresh b)) ! i = lm (a ! i)"
    "cells (volk_32f_log2_32f_u_generic lm a 0 0 N (fresh b)) ! i = lm (a ! i)"
    using assms(1,2,3) sc by (simp_all add: generic_cells u_generic_cells nth_append)
  note N = assms(1,3)
  note b1 = sweep_bounds[where lane = sse4_1_lane and scalar = "log2f_non_ieee lm" and a = a and i = i
      and W = 4 and b = b, OF N lanes(1) sc(1) l n]
  note b2 = sweep_bounds[where lane = sse4_1_lane and scalar = "u_scalar lm" and a = a and i = i
      and W = 4 and b = b, OF N lanes(1) sc(2) l n]
  note b3 = sweep_bounds[where lane = avx2_lane and scalar = "log2f_non_ieee lm" and a = a and i = i
      and W = 8 and b = b, OF N lanes(2) sc(1) l n]
  note b4 = sweep_bounds[where lane = avx2_lane and scalar = "u_scalar lm" and a = a and i = i
      and W = 8 and b = b, OF N lanes(2) sc(2) l n]
  note b5 = sweep_bounds[where lane = avx2_fma_lane and scalar = "log2f_non_ieee lm" and a = a and i = i
      and W = 8 and b = b, OF N lanes(3) sc(1) l n]
  note b6 = sweep_bounds[where lane = avx2_fma_lane and scalar = "u_scalar lm" and a = a and i = i
      and W = 8 and b = b, OF N lanes(3) sc(2) l n]
  note b7 = sweep_bounds[where lane = neon_lane and scalar = "log2f_non_ieee lm" and a = a and i = i
      and W = 4 and b = b, OF N lanes(4) sc(1) l n]
  show ?thesis
    unfolding kernel_sweeps[OF assms(1,2)] g t_def[symmetric] r_def[symmetric]
    using l b1 b2 b3 b4 b5 b6 b7 by blast
qed

lemma lanes_at_smallest_subnormal:
  "sse4_1_lane 0x00000001 = 0xC2FE0000"
  "avx2_lane 0x00000001 = 0xC2FE0000"
  "avx2_fma_lane 0x00000001 = 0xC2FE0000"
  by (simp_all add: sse4_1_lane_def avx2_lane_def avx2_fma_lane_def lane_exponent_def lane_frac_def
      float_lits log2_coeffs_bits fp_eval cong: let_weak_cong)

lemma neon_lane_at_smallest_subnormal: "neon_lane 0x00000001 = 0xC2FE0001"
  by (simp add: neon_lane_def neon_coeffs_bits fp_eval cong: let_weak_cong)

lemma smallest_subnormal:
  "is_finite 0x00000001" "0 < valof 0x00000001" "log 2 (valof 0x00000001) = - 149"
proof -
  show "is_finite 0x00000001" by (simp add: is_finite_def expo_def)
  have v: "valof 0x00000001 = 2 powi (- 149)"
    by (simp add: valof_def power_int_minus fp_eval field_simps cong: let_weak_cong)
  show "0 < valof 0x00000001" unfolding v by simp
  show "log 2 (valof 0x00000001) = - 149" unfolding v log2_powi by simp
qed

lemma minus_127_valof:
  "valof 0xC2FE0000 = - 127" "valof 0xC2FE0001 = - (16646145 / 2 ^ 17)"
  by (simp_all add: valof_def fp_eval cong: let_weak_cong)

text \<open>
  The claim as stated fails for a subnormal input in the vector-processed part. For four
  (eight) elements \<open>2\<^sup>-\<^sup>1\<^sup>4\<^sup>9\<close>, the smallest subnormal, whose logarithm is \<open>-149\<close>, the SSE4.1,
  AVX2 and FMA kernels store \<open>-127.0\<close> and the NEON kernel the next float below: an error of
  \<open>22\<close>, more than one part in a thousand of the logarithm.
\<close>

theorem subnormal_in_vector_lane:
  "is_finite 0x00000001 \<and> 0 < valof 0x00000001 \<and> log 2 (valof 0x00000001) = - 149
   \<and> \<bar>valof (cells (volk_32f_log2_32f_a_sse4_1 log2f_trunc [0, 0, 0, 0] [1, 1, 1, 1] 4) ! 0)
        - log 2 (valof 0x00000001)\<bar> = 22
   \<and> \<bar>valof (cells (volk_32f_log2_32f_a_avx2 log2f_trunc [0, 0, 0, 0, 0, 0, 0, 0]
                       [1, 1, 1, 1, 1, 1, 1, 1] 8) ! 0)
        - log 2 (valof 0x00000001)\<bar> = 22
   \<and> \<bar>valof (cells (volk_32f_log2_32f_a_avx2_fma log2f_trunc [0, 0, 0, 0, 0, 0, 0, 0]
                       [1, 1, 1, 1, 1, 1, 1, 1] 8) ! 0)
        - log 2 (valof 0x00000001)\<bar> = 22
   \<and> \<bar>valof (cells (volk_32f_log2_32f_neon log2f_trunc [0, 0, 0, 0] [1, 1, 1, 1] 4) ! 0)
        - log 2 (valof 0x00000001)\<bar> > 21
   \<and> \<not> (22 :: real) \<le> 1 / 10 ^ 3 * \<bar>- 149\<bar>"
  by (simp add: kernel_sweeps sweep_def smallest_subnormal lanes_at_smallest_subnormal
      neon_lane_at_smallest_subnormal minus_127_valof)

theorem log2_error_bound_witness:
  "\<bar>valof (cells (volk_32f_log2_32f_generic log2f_trunc
        [0x3F800000, 0x40000000, 0x40400000, 0x44800000, 0x3F000000, 0x3FC00000, 0x40800000,
        0x41000000, 0x00000001] 0 0 9 (fresh [0, 0, 0, 0, 0, 0, 0, 0, 0])) ! 1)
      - log 2 (valof 0x40000000)\<bar> \<le> 0
   \<and> \<bar>valof (cells (volk_32f_log2_32f_u_generic log2f_trunc
        [0x3F800000, 0x40000000, 0x40400000, 0x44800000, 0x3F000000, 0x3FC00000, 0x40800000,
        0x41000000, 0x00000001] 0 0 9 (fresh [0, 0, 0, 0, 0, 0, 0, 0, 0])) ! 1)
      - log 2 (valof 0x40000000)\<bar> \<le> 0
   \<and> \<bar>valof (cells (volk_32f_log2_32f_a_sse4_1 log2f_trunc [0, 0, 0, 0, 0, 0, 0, 0, 0]
        [0x3F800000, 0x40000000, 0x40400000, 0x44800000, 0x3F000000, 0x3FC00000, 0x40800000,
        0x41000000, 0x00000001] 9) ! 1)
      - log 2 (valof 0x40000000)\<bar> \<le> 68 / 10 ^ 5
   \<and> \<bar>valof (cells (volk_32f_log2_32f_u_sse4_1 log2f_trunc [0, 0, 0, 0, 0, 0, 0, 0, 0]
        [0x3F800000, 0x40000000, 0x40400000, 0x44800000, 0x3F000000, 0x3FC00000, 0x40800000,
        0x41000000, 0x00000001] 9) ! 1)
      - log 2 (valof 0x40000000)\<bar> \<le> 68 / 10 ^ 5
   \<and> \<bar>valof (cells (volk_32f_log2_32f_a_avx2 log2f_trunc [0, 0, 0, 0, 0, 0, 0, 0, 0]
        [0x3F800000, 0x40000000, 0x40400000, 0x44800000, 0x3F000000, 0x3FC00000, 0x40800000,
        0x41000000, 0x00000001] 9) ! 1)
      - log 2 (valof 0x40000000)\<bar> \<le> 68 / 10 ^ 5
   \<and> \<bar>valof (cells (volk_32f_log2_32f_u_avx2 log2f_trunc [0, 0, 0, 0, 0, 0, 0, 0, 0]
        [0x3F800000, 0x40000000, 0x40400000, 0x44800000, 0x3F000000, 0x3FC00000, 0x40800000,
        0x41000000, 0x00000001] 9) ! 1)
      - log 2 (valof 0x40000000)\<bar> \<le> 68 / 10 ^ 5
   \<and> \<bar>valof (cells (volk_32f_log2_32f_a_avx2_fma log2f_trunc [0, 0, 0, 0, 0, 0, 0, 0, 0]
        [0x3F800000, 0x40000000, 0x40400000, 0x44800000, 0x3F000000, 0x3FC00000, 0x40800000,
        0x41000000, 0x00000001] 9) ! 1)
      - log 2 (valof 0x40000000)\<bar> \<le> 67 / 10 ^ 5
   \<and> \<bar>valof (cells (volk_32f_log2_32f_u_avx2_fma log2f_trunc [0, 0, 0, 0, 0, 0, 0, 0, 0]
        [0x3F800000, 0x40000000, 0x40400000, 0x44800000, 0x3F000000, 0x3FC00000, 0x40800000,
        0x41000000, 0x00000001] 9) ! 1)
      - log 2 (valof 0x40000000)\<bar> \<le> 67 / 10 ^ 5
   \<and> \<bar>valof (cells (volk_32f_log2_32f_neon log2f_trunc [0, 0, 0, 0, 0, 0, 0, 0, 0]
        [0x3F800000, 0x40000000, 0x40400000, 0x44800000, 0x3F000000, 0x3FC00000, 0x40800000,
        0x41000000, 0x00000001] 9) ! 1)
      - log 2 (valof 0x40000000)\<bar> \<le> 35 / 10 ^ 5
   \<and> is_normal 0x40000000 \<and> log 2 (valof 0x40000000) = 1"
proof -
  define a :: "float32 list" where "a = [0x3F800000, 0x40000000, 0x40400000, 0x44800000, 0x3F000000, 0x3FC00000, 0x40800000,
        0x41000000, 0x00000001]"
  define b :: "float32 list" where "b = [0, 0, 0, 0, 0, 0, 0, 0, 0]"
  have la: "9 \<le> length a" and lb: "9 \<le> length b" and i: "(1::nat) < 9" by (simp_all add: a_def b_def)
  have s: "a ! 1 = 0x40000000" by (simp add: a_def)
  have p: "power_of_two 0x40000000" and e: "expo 0x40000000 = 128" and n: "is_normal 0x40000000"
    by (simp_all add: power_of_two_def is_normal_def sign_of_def expo_def mant_def)
  have v: "valof 0x40000000 = 2" using power_of_two_valof[OF p] unfolding e by simp
  have lg: "log 2 (valof 0x40000000) = 1" unfolding v by simp
  have f: "is_finite (a ! 1)" unfolding s by (simp add: is_finite_def expo_def)
  have pos: "0 < valof (a ! 1)" unfolding s v by simp
  have fl: "is_finite (log2f_trunc (a ! 1))" unfolding log2f_trunc_def by (rule cvt_s32_finite)
  have t: "\<bar>valof (log2f_trunc (a ! 1)) - log 2 (valof (a ! 1))\<bar> \<le> 0"
    unfolding s lg log2f_trunc_power_of_two[OF p] e by simp
  have d: "9 div 4 * 4 = (8::nat)" "9 div 8 * 8 = (8::nat)" by simp_all
  show ?thesis
    using log2_error_bound[where lm = log2f_trunc and a = a and b = b and i = 1 and N = 9 and tol = 0,
        OF la lb i f pos fl t] n lg
    unfolding a_def[symmetric] b_def[symmetric] s d
    by simp
qed

end
